theory Spec2Isabelle
  imports Main "HOL-Library.AList" "HOL-Library.List_Lexorder" "HOL-Library.Sublist"
begin

section \<open>Python values\<close>

text \<open>
  A Python \<open>str\<close> is a sequence of Unicode code points, so it is modelled as a list of
  natural numbers; this keeps lone surrogates, the values \<open>str.encode()\<close> refuses.
  Field names are only compared and concatenated by the code, so they stay HOL strings.
\<close>

type_synonym pystr = "nat list"

type_synonym bytes = "nat list"

definition py :: "string \<Rightarrow> pystr" where
  "py s = map of_char s"

text \<open>
  The values of a record, as the data model has them: null, flags, numbers, strings and
  timestamps, and the identifiers the store generates.
\<close>

datatype pyval =
    PNone
  | PBool bool
  | PInt int
  | PStr pystr
  | PDatetime int
  | PObjectId nat

type_synonym pydict = "(string \<times> pyval) list"

datatype pyerror =
    UnicodeEncodeError
  | CipherError
  | OverflowError
  | KeyError
  | DuplicateKeyError
  | WriteError
  | BulkWriteError
  | InvalidName
  | ConnectionFailure

text \<open>
  What the code takes from the Python runtime and from its libraries: the Unicode
  database behind \<open>\d\<close> and \<open>\w\<close>, \<open>hashlib\<close>, the Fernet cipher built in
  \<open>__init__\<close> (its output depends on the moment of the call, \<open>None\<close> is a raised
  exception), \<open>base64\<close>, the clock and the renderings of \<open>datetime\<close> and \<open>ObjectId\<close>.
  A \<open>datetime\<close> is the number of microseconds since 0001-01-01T00:00:00.
\<close>

record pyenv =
  isdecimal :: "nat \<Rightarrow> bool"
  isword :: "nat \<Rightarrow> bool"
  sha256_hexdigest :: "bytes \<Rightarrow> pystr"
  md5_hexdigest :: "bytes \<Rightarrow> pystr"
  fernet_encrypt :: "nat \<Rightarrow> bytes \<Rightarrow> bytes option"
  b64encode :: "bytes \<Rightarrow> pystr"
  utcnow :: "nat \<Rightarrow> int"
  isoformat :: "int \<Rightarrow> pystr"
  datetime_str :: "int \<Rightarrow> pystr"
  objectid_str :: "nat \<Rightarrow> pystr"

fun digits_of_nat :: "nat \<Rightarrow> pystr" where
  "digits_of_nat n =
     (if n < 10 then [48 + n] else digits_of_nat (n div 10) @ [48 + n mod 10])"

declare digits_of_nat.simps [simp del]

definition str_of_int :: "int \<Rightarrow> pystr" where
  "str_of_int i = (if i < 0 then 45 # digits_of_nat (nat (- i)) else digits_of_nat (nat i))"

text \<open>The builtin \<open>str()\<close>.\<close>

fun py_str :: "pyenv \<Rightarrow> pyval \<Rightarrow> pystr" where
  "py_str env PNone = py ''None''"
| "py_str env (PBool b) = (if b then py ''True'' else py ''False'')"
| "py_str env (PInt i) = str_of_int i"
| "py_str env (PStr s) = s"
| "py_str env (PDatetime t) = datetime_str env t"
| "py_str env (PObjectId n) = objectid_str env n"

subsection \<open>\<open>str.encode()\<close>: UTF-8, refusing surrogates\<close>

definition is_surrogate :: "nat \<Rightarrow> bool" where
  "is_surrogate c = (55296 \<le> c \<and> c \<le> 57343)"

definition utf8_char :: "nat \<Rightarrow> bytes" where
  "utf8_char c =
     (if c < 128 then [c]
      else if c < 2048 then [192 + c div 64, 128 + c mod 64]
      else if c < 65536 then [224 + c div 4096, 128 + (c div 64) mod 64, 128 + c mod 64]
      else [240 + c div 262144, 128 + (c div 4096) mod 64, 128 + (c div 64) mod 64,
            128 + c mod 64])"

definition str_encode :: "pystr \<Rightarrow> bytes option" where
  "str_encode s =
     (if list_ex (\<lambda>c. is_surrogate c \<or> 1114111 < c) s then None
      else Some (concat (map utf8_char s)))"

section \<open>The masks of \<open>privacy_utils.py\<close>\<close>

text \<open>
  \<open>_mask_email\<close>: \<open>email.split('@', 1)\<close> cuts at the first \<open>@\<close> (code point 64);
  the mask character \<open>*\<close> is code point 42. Nothing in the \<open>try\<close> block can raise on
  a string, so the handler returning \<open>***@***.***\<close> is never entered.
\<close>

definition mask_email :: "pystr \<Rightarrow> pystr" where
  "mask_email email =
     (if 64 \<in> set email then
        (let local = takeWhile (\<lambda>c. c \<noteq> 64) email;
             domain = tl (dropWhile (\<lambda>c. c \<noteq> 64) email);
             masked_local =
               (if length local > 2
                then [hd local] @ replicate (length local - 2) 42 @ [last local]
                else replicate (length local) 42)
         in masked_local @ [64] @ domain)
      else email)"

text \<open>\<open>_mask_phone\<close>: \<open>re.sub(r'\D', '', phone)\<close> keeps the decimal digits.\<close>

definition mask_phone :: "pyenv \<Rightarrow> pystr \<Rightarrow> pystr" where
  "mask_phone env phone =
     (let digits = filter (isdecimal env) phone
      in if length digits \<ge> 10
         then py ''***-***-'' @ drop (length digits - 4) digits
         else py ''***-***-****'')"

definition mask_ssn :: "pystr \<Rightarrow> pystr" where
  "mask_ssn ssn = py ''***-**-****''"

section \<open>The patterns of \<open>pii_patterns\<close> and \<open>re.search\<close>\<close>

datatype rx =
    Never
  | Eps
  | Cls "nat \<Rightarrow> bool"
  | Cat rx rx
  | Alt rx rx
  | Star rx

fun nullable :: "rx \<Rightarrow> bool" where
  "nullable Never = False"
| "nullable Eps = True"
| "nullable (Cls p) = False"
| "nullable (Cat r s) = (nullable r \<and> nullable s)"
| "nullable (Alt r s) = (nullable r \<or> nullable s)"
| "nullable (Star r) = True"

fun deriv :: "nat \<Rightarrow> rx \<Rightarrow> rx" where
  "deriv c Never = Never"
| "deriv c Eps = Never"
| "deriv c (Cls p) = (if p c then Eps else Never)"
| "deriv c (Cat r s) =
     (if nullable r then Alt (Cat (deriv c r) s) (deriv c s) else Cat (deriv c r) s)"
| "deriv c (Alt r s) = Alt (deriv c r) (deriv c s)"
| "deriv c (Star r) = Cat (deriv c r) (Star r)"

fun rx_matches :: "rx \<Rightarrow> pystr \<Rightarrow> bool" where
  "rx_matches r [] = nullable r"
| "rx_matches r (c # cs) = rx_matches (deriv c r) cs"

definition Opt :: "rx \<Rightarrow> rx" where
  "Opt r = Alt r Eps"

definition Plus :: "rx \<Rightarrow> rx" where
  "Plus r = Cat r (Star r)"

fun Rep :: "nat \<Rightarrow> rx \<Rightarrow> rx" where
  "Rep 0 r = Eps"
| "Rep (Suc n) r = Cat r (Rep n r)"

definition in_range :: "nat \<Rightarrow> nat \<Rightarrow> nat \<Rightarrow> bool" where
  "in_range lo hi c = (lo \<le> c \<and> c \<le> hi)"

text \<open>\<open>\b\<close> at position \<open>i\<close> of \<open>s\<close>: exactly one side is a word character.\<close>

definition word_at :: "pyenv \<Rightarrow> pystr \<Rightarrow> nat \<Rightarrow> bool" where
  "word_at env s i = (i < length s \<and> isword env (s ! i))"

definition boundary :: "pyenv \<Rightarrow> pystr \<Rightarrow> nat \<Rightarrow> bool" where
  "boundary env s i = ((i > 0 \<and> word_at env s (i - 1)) \<noteq> word_at env s i)"

text \<open>
  \<open>re.search\<close> of a pattern of the form \<open>\b r \b\<close>: some slice \<open>s[i:j]\<close> between two
  word boundaries matches \<open>r\<close>.
\<close>

definition re_search_bounded :: "pyenv \<Rightarrow> rx \<Rightarrow> pystr \<Rightarrow> bool" where
  "re_search_bounded env r s =
     list_ex (\<lambda>i. boundary env s i \<and>
        list_ex (\<lambda>j. boundary env s j \<and> rx_matches r (take (j - i) (drop i s)))
          [i ..< Suc (length s)])
       [0 ..< Suc (length s)]"

text \<open>\<open>[A-Za-z0-9._%+-]\<close>, \<open>[A-Za-z0-9.-]\<close> and \<open>[A-Z|a-z]\<close>.\<close>

definition email_local_char :: "nat \<Rightarrow> bool" where
  "email_local_char c =
     (in_range 65 90 c \<or> in_range 97 122 c \<or> in_range 48 57 c \<or> c \<in> set (py ''._%+-''))"

definition email_domain_char :: "nat \<Rightarrow> bool" where
  "email_domain_char c =
     (in_range 65 90 c \<or> in_range 97 122 c \<or> in_range 48 57 c \<or> c \<in> set (py ''.-''))"

definition email_tld_char :: "nat \<Rightarrow> bool" where
  "email_tld_char c = (in_range 65 90 c \<or> c = 124 \<or> in_range 97 122 c)"

definition email_pattern :: rx where
  "email_pattern =
     Cat (Plus (Cls email_local_char))
       (Cat (Cls (\<lambda>c. c = 64))
         (Cat (Plus (Cls email_domain_char))
           (Cat (Cls (\<lambda>c. c = 46))
             (Cat (Rep 2 (Cls email_tld_char)) (Star (Cls email_tld_char))))))"

definition phone_pattern :: "pyenv \<Rightarrow> rx" where
  "phone_pattern env =
     Cat (Rep 3 (Cls (isdecimal env)))
       (Cat (Opt (Cls (\<lambda>c. c = 45 \<or> c = 46)))
         (Cat (Rep 3 (Cls (isdecimal env)))
           (Cat (Opt (Cls (\<lambda>c. c = 45 \<or> c = 46)))
             (Rep 4 (Cls (isdecimal env))))))"

definition ssn_pattern :: "pyenv \<Rightarrow> rx" where
  "ssn_pattern env =
     Cat (Rep 3 (Cls (isdecimal env)))
       (Cat (Opt (Cls (\<lambda>c. c = 45)))
         (Cat (Rep 2 (Cls (isdecimal env)))
           (Cat (Opt (Cls (\<lambda>c. c = 45)))
             (Rep 4 (Cls (isdecimal env))))))"

text \<open>
  The body of the loop of \<open>_anonymize_record\<close> for one value: only a \<open>str\<close> is
  looked at, and the \<open>if\<close>/\<open>elif\<close> chain takes the first pattern found.
\<close>

definition mask_field_value :: "pyenv \<Rightarrow> pyval \<Rightarrow> pyval" where
  "mask_field_value env value =
     (case value of
        PStr s \<Rightarrow>
          (if re_search_bounded env email_pattern s then PStr (mask_email s)
           else if re_search_bounded env (phone_pattern env) s then PStr (mask_phone env s)
           else if re_search_bounded env (ssn_pattern env) s then PStr (mask_ssn s)
           else value)
      | _ \<Rightarrow> value)"

section \<open>The interpreter state of \<open>PrivacyUtils\<close>\<close>

text \<open>
  The records handed to the anonymizer are mutable \<open>dict\<close> objects. They live in a heap
  addressed by position; a new object is appended, so its address is the length of the
  heap before. The state also holds what the logger received and the number of readings
  taken so far from the clock and from the cipher's randomness.
\<close>

type_synonym addr = nat

datatype log_level = INFO | WARNING | ERROR

datatype log_arg = ArgErr pyerror | ArgNat nat | ArgStr pystr

type_synonym log_entry = "log_level \<times> string \<times> log_arg list"

record pystate =
  heap :: "pydict list"
  logged :: "log_entry list"
  ticks :: nat

record privacy_utils =
  ferpa_enabled :: bool
  audit_enabled :: bool
  anonymization_enabled :: bool

definition pii_fields :: "string list" where
  "pii_fields =
     [''email'', ''login_id'', ''name'', ''sortable_name'', ''short_name'',
      ''phone'', ''address'', ''ssn'', ''student_number'', ''sis_user_id'']"

definition sensitive_fields :: "string list" where
  "sensitive_fields = [''email'', ''phone'', ''address'', ''ssn'', ''student_number'']"

definition log_msg :: "log_level \<Rightarrow> string \<Rightarrow> log_arg list \<Rightarrow> pystate \<Rightarrow> pystate" where
  "log_msg lv msg args s = s\<lparr>logged := logged s @ [(lv, msg, args)]\<rparr>"

text \<open>\<open>d.copy()\<close>, \<open>d[k] = v\<close> and \<open>del d[k]\<close> on the object at an address.\<close>

definition dict_copy :: "addr \<Rightarrow> pystate \<Rightarrow> addr \<times> pystate" where
  "dict_copy a s = (length (heap s), s\<lparr>heap := heap s @ [heap s ! a]\<rparr>)"

definition setitem :: "addr \<Rightarrow> string \<Rightarrow> pyval \<Rightarrow> pystate \<Rightarrow> pystate" where
  "setitem a k v s = s\<lparr>heap := (heap s)[a := AList.update k v (heap s ! a)]\<rparr>"

definition delitem :: "addr \<Rightarrow> string \<Rightarrow> pystate \<Rightarrow> pystate" where
  "delitem a k s = s\<lparr>heap := (heap s)[a := AList.delete k (heap s ! a)]\<rparr>"

text \<open>
  \<open>_anonymize_record\<close> assigns the masked value to every key of the object it is given,
  and returns the same object. Its handler is never entered: no mask raises.
\<close>

definition anonymize_record :: "pyenv \<Rightarrow> addr \<Rightarrow> pystate \<Rightarrow> pystate" where
  "anonymize_record env a s =
     s\<lparr>heap := (heap s)[a := map (\<lambda>(key, value). (key, mask_field_value env value)) (heap s ! a)]\<rparr>"

text \<open>
  \<open>_generate_anonymous_id\<close>: the handler hashes with MD5 after logging, and encodes the
  identifier again, so what made the first attempt raise is raised again.
\<close>

definition generate_anonymous_id ::
  "pyenv \<Rightarrow> pystr \<Rightarrow> pystate \<Rightarrow> (pyerror + pystr) \<times> pystate" where
  "generate_anonymous_id env original_id s =
     (case str_encode original_id of
        Some b \<Rightarrow> (Inr (py ''anon_'' @ take 16 (sha256_hexdigest env b)), s)
      | None \<Rightarrow>
          (let s' = log_msg ERROR ''Anonymous ID generation failed'' [ArgErr UnicodeEncodeError] s
           in case str_encode original_id of
                Some b \<Rightarrow> (Inr (py ''anon_'' @ take 16 (md5_hexdigest env b)), s')
              | None \<Rightarrow> (Inl UnicodeEncodeError, s')))"

definition hash_field :: "pyenv \<Rightarrow> pystr \<Rightarrow> pystate \<Rightarrow> (pyerror + pystr) \<times> pystate" where
  "hash_field env value s =
     (case str_encode value of
        Some b \<Rightarrow> (Inr (sha256_hexdigest env b), s)
      | None \<Rightarrow>
          (let s' = log_msg ERROR ''Field hashing failed'' [ArgErr UnicodeEncodeError] s
           in case str_encode value of
                Some b \<Rightarrow> (Inr (md5_hexdigest env b), s')
              | None \<Rightarrow> (Inl UnicodeEncodeError, s')))"

text \<open>\<open>_encrypt_field\<close>: whatever the cipher or the encoding raises, the field is hashed.\<close>

definition encrypt_field :: "pyenv \<Rightarrow> pystr \<Rightarrow> pystate \<Rightarrow> (pyerror + pystr) \<times> pystate" where
  "encrypt_field env value s =
     (case str_encode value of
        None \<Rightarrow>
          hash_field env value
            (log_msg ERROR ''Field encryption failed'' [ArgErr UnicodeEncodeError] s)
      | Some b \<Rightarrow>
          (case fernet_encrypt env (ticks s) b of
             Some token \<Rightarrow> (Inr (b64encode env token), s\<lparr>ticks := Suc (ticks s)\<rparr>)
           | None \<Rightarrow>
               hash_field env value
                 (log_msg ERROR ''Field encryption failed'' [ArgErr CipherError]
                    (s\<lparr>ticks := Suc (ticks s)\<rparr>))))"

text \<open>\<open>_log_privacy_event\<close> writes to the standard logger, with the time of the call.\<close>

definition log_privacy_event ::
  "pyenv \<Rightarrow> privacy_utils \<Rightarrow> string \<Rightarrow> log_arg list \<Rightarrow> pystate \<Rightarrow> pystate" where
  "log_privacy_event env self event_type details s =
     (if \<not> audit_enabled self then s
      else log_msg INFO (''Privacy audit: '' @ event_type)
             (ArgStr (isoformat env (utcnow env (ticks s))) # details)
             (s\<lparr>ticks := Suc (ticks s)\<rparr>))"

section \<open>\<open>anonymize_student_data\<close>\<close>

text \<open>The loop over \<open>self.pii_fields\<close> on the copy at address \<open>a\<close>.\<close>

fun student_pii_loop ::
  "pyenv \<Rightarrow> addr \<Rightarrow> string list \<Rightarrow> pystate \<Rightarrow> (pyerror + unit) \<times> pystate" where
  "student_pii_loop env a [] s = (Inr (), s)"
| "student_pii_loop env a (field # rest) s =
     (case map_of (heap s ! a) field of
        None \<Rightarrow> student_pii_loop env a rest s
      | Some value \<Rightarrow>
          (if field \<in> set sensitive_fields then
             (case encrypt_field env (py_str env value) s of
                (Inl e, s') \<Rightarrow> (Inl e, s')
              | (Inr c, s') \<Rightarrow>
                  student_pii_loop env a rest
                    (delitem a field (setitem a (field @ ''_encrypted'') (PStr c) s')))
           else
             (case hash_field env (py_str env value) s of
                (Inl e, s') \<Rightarrow> (Inl e, s')
              | (Inr h, s') \<Rightarrow>
                  student_pii_loop env a rest
                    (delitem a field (setitem a (field @ ''_hash'') (PStr h) s')))))"

text \<open>
  One turn of the loop over \<open>students\<close>. The identifier is read from the caller's
  record, everything is written to the copy.
\<close>

definition anonymize_student :: "pyenv \<Rightarrow> addr \<Rightarrow> pystate \<Rightarrow> (pyerror + addr) \<times> pystate" where
  "anonymize_student env student s0 =
     (let (a, s1) = dict_copy student s0;
          s2 = anonymize_record env a s1
      in case (case map_of (heap s2 ! student) ''student_id'' of
                 None \<Rightarrow> (Inr (), s2)
               | Some sid \<Rightarrow>
                   (case generate_anonymous_id env (py_str env sid) s2 of
                      (Inl e, s3) \<Rightarrow> (Inl e, s3)
                    | (Inr anon, s3) \<Rightarrow> (Inr (), setitem a ''anonymous_id'' (PStr anon) s3)))
         of
           (Inl e, s3) \<Rightarrow> (Inl e, s3)
         | (Inr u, s3) \<Rightarrow>
             (case student_pii_loop env a pii_fields s3 of
                (Inl e, s4) \<Rightarrow> (Inl e, s4)
              | (Inr u', s4) \<Rightarrow>
                  (let s5 = setitem a ''anonymized_at''
                              (PStr (isoformat env (utcnow env (ticks s4))))
                              (s4\<lparr>ticks := Suc (ticks s4)\<rparr>);
                       s6 = setitem a ''privacy_level'' (PStr (py ''ferpa_compliant'')) s5
                   in (Inr a, s6))))"

fun student_loop ::
  "pyenv \<Rightarrow> addr list \<Rightarrow> addr list \<Rightarrow> pystate \<Rightarrow> (pyerror + addr list) \<times> pystate" where
  "student_loop env [] anonymized_students s = (Inr anonymized_students, s)"
| "student_loop env (student # students) anonymized_students s =
     (case anonymize_student env student s of
        (Inl e, s') \<Rightarrow> (Inl e, s')
      | (Inr a, s') \<Rightarrow> student_loop env students (anonymized_students @ [a]) s')"

text \<open>
  The whole call: one \<open>try\<close> around the loop, whose handler logs and raises again.
  With anonymization disabled the caller's list is returned as it is.
\<close>

definition anonymize_student_data ::
  "pyenv \<Rightarrow> privacy_utils \<Rightarrow> addr list \<Rightarrow> pystate \<Rightarrow> (pyerror + addr list) \<times> pystate" where
  "anonymize_student_data env self students s =
     (if \<not> anonymization_enabled self
      then (Inr students, log_msg INFO ''Data anonymization is disabled'' [] s)
      else
        (case student_loop env students [] s of
           (Inl e, s') \<Rightarrow>
             (Inl e, log_msg ERROR ''Student data anonymization failed'' [ArgErr e] s')
         | (Inr anonymized_students, s') \<Rightarrow>
             (Inr anonymized_students,
              log_privacy_event env self ''student_data_anonymization''
                [ArgNat (length students)]
                (log_msg INFO ''Anonymized student records''
                   [ArgNat (length anonymized_students)] s'))))"

section \<open>\<open>anonymize_attendance_data\<close> and \<open>anonymize_library_data\<close>\<close>

text \<open>
  The two functions have the same loop body: the identifier is replaced by its
  pseudonym and every PII field present is deleted.
\<close>

fun usage_pii_loop :: "addr \<Rightarrow> string list \<Rightarrow> pystate \<Rightarrow> pystate" where
  "usage_pii_loop a [] s = s"
| "usage_pii_loop a (field # rest) s =
     (case map_of (heap s ! a) field of
        None \<Rightarrow> usage_pii_loop a rest s
      | Some value \<Rightarrow> usage_pii_loop a rest (delitem a field s))"

definition anonymize_usage_record ::
  "pyenv \<Rightarrow> addr \<Rightarrow> pystate \<Rightarrow> (pyerror + addr) \<times> pystate" where
  "anonymize_usage_record env record s0 =
     (let (a, s1) = dict_copy record s0;
          s2 = anonymize_record env a s1
      in case (case map_of (heap s2 ! record) ''student_id'' of
                 None \<Rightarrow> (Inr (), s2)
               | Some sid \<Rightarrow>
                   (case generate_anonymous_id env (py_str env sid) s2 of
                      (Inl e, s3) \<Rightarrow> (Inl e, s3)
                    | (Inr anon, s3) \<Rightarrow>
                        (Inr (), delitem a ''student_id''
                                   (setitem a ''anonymous_id'' (PStr anon) s3))))
         of
           (Inl e, s3) \<Rightarrow> (Inl e, s3)
         | (Inr u, s3) \<Rightarrow>
             (let s4 = usage_pii_loop a pii_fields s3;
                  s5 = setitem a ''anonymized_at''
                         (PStr (isoformat env (utcnow env (ticks s4))))
                         (s4\<lparr>ticks := Suc (ticks s4)\<rparr>)
              in (Inr a, s5)))"

fun usage_loop ::
  "pyenv \<Rightarrow> addr list \<Rightarrow> addr list \<Rightarrow> pystate \<Rightarrow> (pyerror + addr list) \<times> pystate" where
  "usage_loop env [] anonymized_records s = (Inr anonymized_records, s)"
| "usage_loop env (record # records) anonymized_records s =
     (case anonymize_usage_record env record s of
        (Inl e, s') \<Rightarrow> (Inl e, s')
      | (Inr a, s') \<Rightarrow> usage_loop env records (anonymized_records @ [a]) s')"

definition anonymize_attendance_data ::
  "pyenv \<Rightarrow> privacy_utils \<Rightarrow> addr list \<Rightarrow> pystate \<Rightarrow> (pyerror + addr list) \<times> pystate" where
  "anonymize_attendance_data env self attendance_records s =
     (if \<not> anonymization_enabled self then (Inr attendance_records, s)
      else
        (case usage_loop env attendance_records [] s of
           (Inl e, s') \<Rightarrow>
             (Inl e, log_msg ERROR ''Attendance data anonymization failed'' [ArgErr e] s')
         | (Inr anonymized_records, s') \<Rightarrow>
             (Inr anonymized_records,
              log_msg INFO ''Anonymized attendance records''
                [ArgNat (length anonymized_records)] s')))"

definition anonymize_library_data ::
  "pyenv \<Rightarrow> privacy_utils \<Rightarrow> addr list \<Rightarrow> pystate \<Rightarrow> (pyerror + addr list) \<times> pystate" where
  "anonymize_library_data env self library_records s =
     (if \<not> anonymization_enabled self then (Inr library_records, s)
      else
        (case usage_loop env library_records [] s of
           (Inl e, s') \<Rightarrow>
             (Inl e, log_msg ERROR ''Library data anonymization failed'' [ArgErr e] s')
         | (Inr anonymized_records, s') \<Rightarrow>
             (Inr anonymized_records,
              log_msg INFO ''Anonymized library records''
                [ArgNat (length anonymized_records)] s')))"

section \<open>The store of \<open>mongodb_client.py\<close>\<close>

text \<open>
  The database the client talks to: the documents of every collection in insertion
  order, the single-field unique indexes that exist (\<open>_setup_indexes\<close> creates them and
  goes on when it fails), whether the server answers, the counter behind generated
  \<open>ObjectId\<close>s, the number of clock readings and what the logger received.
  A stored document starts with its \<open>_id\<close>.
\<close>

type_synonym document = pydict

record mongo =
  collections :: "string \<Rightarrow> document list"
  unique_indexes :: "string \<Rightarrow> string list"
  available :: bool
  next_oid :: nat
  clock :: nat
  mlogged :: "log_entry list"

record write_result =
  upserted_id :: "pyval option"
  matched_count :: nat
  modified_count :: nat

record store_counts =
  inserted :: nat
  updated :: nat
  failed :: nat

definition mlog :: "log_level \<Rightarrow> string \<Rightarrow> log_arg list \<Rightarrow> mongo \<Rightarrow> mongo" where
  "mlog lv msg args db = db\<lparr>mlogged := mlogged db @ [(lv, msg, args)]\<rparr>"

text \<open>A missing field compares as null, in a filter and in a unique index.\<close>

definition field_value :: "document \<Rightarrow> string \<Rightarrow> pyval" where
  "field_value d k = (case map_of d k of Some v \<Rightarrow> v | None \<Rightarrow> PNone)"

definition bson_doc :: "document \<Rightarrow> document" where
  "bson_doc d =
     (case map_of d ''_id'' of
        Some v \<Rightarrow> (''_id'', v) # AList.delete ''_id'' d
      | None \<Rightarrow> d)"

definition dup_id :: "document list \<Rightarrow> document \<Rightarrow> bool" where
  "dup_id docs d = list_ex (\<lambda>d'. map_of d' ''_id'' = map_of d ''_id'') docs"

definition violates_unique :: "string list \<Rightarrow> document list \<Rightarrow> document \<Rightarrow> bool" where
  "violates_unique idxs docs d =
     list_ex (\<lambda>k. list_ex (\<lambda>d'. field_value d' k = field_value d k) docs) idxs"

text \<open>Python truthiness, for \<open>if result.upserted_id:\<close>.\<close>

fun truthy :: "pyval \<Rightarrow> bool" where
  "truthy PNone = False"
| "truthy (PBool b) = b"
| "truthy (PInt i) = (i \<noteq> 0)"
| "truthy (PStr s) = (s \<noteq> [])"
| "truthy (PDatetime t) = True"
| "truthy (PObjectId n) = True"

text \<open>The names \<open>Collection.__init__\<close> accepts; \<open>self.database[name]\<close> raises on the others.\<close>

definition valid_collection_name :: "string \<Rightarrow> bool" where
  "valid_collection_name name =
     (name \<noteq> [] \<and> \<not> list_ex (\<lambda>(a, b). a = CHR ''.'' \<and> b = CHR ''.'') (zip name (tl name))
      \<and> (CHR ''$'' \<in> set name \<longrightarrow> prefix ''oplog.$main'' name \<or> prefix ''$cmd'' name)
      \<and> hd name \<noteq> CHR ''.'' \<and> last name \<noteq> CHR ''.'' \<and> CHR 0x00 \<notin> set name)"

text \<open>
  \<open>insert_one\<close>: the driver adds a generated \<open>_id\<close> to the caller's document when it has
  none, then the server refuses a duplicate \<open>_id\<close> or unique-index value. The document as
  the caller sees it afterwards is returned with the outcome.
\<close>

definition with_id :: "document \<Rightarrow> mongo \<Rightarrow> document \<times> mongo" where
  "with_id document db =
     (case map_of document ''_id'' of
        Some v \<Rightarrow> (document, db)
      | None \<Rightarrow> (document @ [(''_id'', PObjectId (next_oid db))],
                 db\<lparr>next_oid := Suc (next_oid db)\<rparr>))"

definition insert_one ::
  "string \<Rightarrow> document \<Rightarrow> mongo \<Rightarrow> (pyerror + unit) \<times> document \<times> mongo" where
  "insert_one cname document db =
     (case with_id document db of
        (doc, db1) \<Rightarrow>
          (if \<not> available db1 then (Inl ConnectionFailure, doc, db1)
           else if dup_id (collections db1 cname) doc
                   \<or> violates_unique (unique_indexes db1 cname) (collections db1 cname) doc
           then (Inl DuplicateKeyError, doc, db1)
           else (Inr (), doc,
                 db1\<lparr>collections :=
                       (collections db1)(cname := collections db1 cname @ [bson_doc doc])\<rparr>)))"

text \<open>
  \<open>replace_one({key: value}, replacement, upsert=True)\<close>: the first document whose
  field equals the value is replaced and keeps its \<open>_id\<close>; \<open>modified_count\<close> is 0 when
  the stored document does not change. Without a match the replacement is inserted and
  its \<open>_id\<close> is reported as \<open>upserted_id\<close>.
\<close>

fun find_first :: "string \<Rightarrow> pyval \<Rightarrow> document list \<Rightarrow> nat option" where
  "find_first key value [] = None"
| "find_first key value (d # ds) =
     (if field_value d key = value then Some 0
      else map_option Suc (find_first key value ds))"

definition replace_one ::
  "string \<Rightarrow> string \<Rightarrow> pyval \<Rightarrow> document \<Rightarrow> mongo \<Rightarrow> (pyerror + write_result) \<times> mongo" where
  "replace_one cname key value replacement db =
     (if \<not> available db then (Inl ConnectionFailure, db)
      else
        (let docs = collections db cname
         in case find_first key value docs of
              Some i \<Rightarrow>
                (let old = docs ! i;
                     new = (''_id'', field_value old ''_id'') # AList.delete ''_id'' replacement;
                     others = take i docs @ drop (Suc i) docs
                 in if map_of replacement ''_id'' \<noteq> None
                       \<and> map_of replacement ''_id'' \<noteq> map_of old ''_id''
                    then (Inl WriteError, db)
                    else if violates_unique (unique_indexes db cname) others new
                    then (Inl DuplicateKeyError, db)
                    else (Inr \<lparr>upserted_id = None, matched_count = 1,
                               modified_count = (if new = old then 0 else 1)\<rparr>,
                          db\<lparr>collections := (collections db)(cname := docs[i := new])\<rparr>))
            | None \<Rightarrow>
                (let db1 = (case map_of replacement ''_id'' of
                              Some v \<Rightarrow> db
                            | None \<Rightarrow> db\<lparr>next_oid := Suc (next_oid db)\<rparr>);
                     new = (case map_of replacement ''_id'' of
                              Some v \<Rightarrow> bson_doc replacement
                            | None \<Rightarrow> (''_id'', PObjectId (next_oid db)) # replacement)
                 in if dup_id docs new \<or> violates_unique (unique_indexes db cname) docs new
                    then (Inl DuplicateKeyError, db1)
                    else (Inr \<lparr>upserted_id = Some (field_value new ''_id''), matched_count = 0,
                               modified_count = 0\<rparr>,
                          db1\<lparr>collections := (collections db1)(cname := docs @ [new])\<rparr>))))"

text \<open>
  \<open>insert_many(data, ordered=False)\<close>: every document first gets its \<open>_id\<close>, then the
  server inserts what it can and the call raises when one insert was refused.
\<close>

fun assign_ids :: "document list \<Rightarrow> mongo \<Rightarrow> document list \<times> mongo" where
  "assign_ids [] db = ([], db)"
| "assign_ids (d # ds) db =
     (case with_id d db of
        (d', db1) \<Rightarrow> (case assign_ids ds db1 of (ds', db2) \<Rightarrow> (d' # ds', db2)))"

fun insert_unordered ::
  "string list \<Rightarrow> document list \<Rightarrow> document list \<Rightarrow> nat \<Rightarrow> document list \<times> nat" where
  "insert_unordered idxs [] docs refused = (docs, refused)"
| "insert_unordered idxs (d # ds) docs refused =
     (if dup_id docs d \<or> violates_unique idxs docs d
      then insert_unordered idxs ds docs (Suc refused)
      else insert_unordered idxs ds (docs @ [bson_doc d]) refused)"

definition insert_many ::
  "string \<Rightarrow> document list \<Rightarrow> mongo \<Rightarrow> (pyerror + nat) \<times> document list \<times> mongo" where
  "insert_many cname data db =
     (case assign_ids data db of
        (data', db1) \<Rightarrow>
          (if \<not> available db1 then (Inl ConnectionFailure, data', db1)
           else
             (case insert_unordered (unique_indexes db1 cname) data' (collections db1 cname) 0 of
                (docs, refused) \<Rightarrow>
                  (let db2 = db1\<lparr>collections := (collections db1)(cname := docs)\<rparr>
                   in if refused > 0 then (Inl BulkWriteError, data', db2)
                      else (Inr (length data'), data', db2)))))"

text \<open>\<open>_log_data_operation\<close>: one document for \<open>audit_logs\<close>; a failure is only logged.\<close>

definition log_data_operation ::
  "pyenv \<Rightarrow> string \<Rightarrow> string \<Rightarrow> nat \<Rightarrow> nat \<Rightarrow> nat \<Rightarrow> mongo \<Rightarrow> mongo" where
  "log_data_operation env collection_name operation total_records ins upd db =
     (let audit_record =
            [(''timestamp'', PDatetime (utcnow env (clock db))),
             (''operation'', PStr (py operation)),
             (''collection'', PStr (py collection_name)),
             (''total_records'', PInt (int total_records)),
             (''inserted_records'', PInt (int ins)),
             (''updated_records'', PInt (int upd)),
             (''source'', PStr (py ''mongodb_client''))]
      in case insert_one ''audit_logs'' audit_record (db\<lparr>clock := Suc (clock db)\<rparr>) of
           (Inl e, doc, db') \<Rightarrow> mlog ERROR ''Failed to log data operation'' [ArgErr e] db'
         | (Inr u, doc, db') \<Rightarrow> db')"

subsection \<open>\<open>store_data\<close>\<close>

fun upsert_loop ::
  "string \<Rightarrow> string \<Rightarrow> document list \<Rightarrow> store_counts \<Rightarrow> mongo \<Rightarrow> store_counts \<times> mongo" where
  "upsert_loop cname upsert_key [] c db = (c, db)"
| "upsert_loop cname upsert_key (document # rest) c db =
     (case map_of document upsert_key of
        Some value \<Rightarrow>
          (case replace_one cname upsert_key value document db of
             (Inl e, db') \<Rightarrow>
               upsert_loop cname upsert_key rest (c\<lparr>failed := failed c + 1\<rparr>)
                 (mlog ERROR ''Failed to upsert document'' [ArgErr e] db')
           | (Inr result, db') \<Rightarrow>
               upsert_loop cname upsert_key rest
                 (if (case upserted_id result of Some v \<Rightarrow> truthy v | None \<Rightarrow> False)
                  then c\<lparr>inserted := inserted c + 1\<rparr>
                  else if modified_count result > 0 then c\<lparr>updated := updated c + 1\<rparr>
                  else c)
                 db')
      | None \<Rightarrow>
          (case insert_one cname document db of
             (Inl e, doc, db') \<Rightarrow>
               upsert_loop cname upsert_key rest (c\<lparr>failed := failed c + 1\<rparr>)
                 (mlog ERROR ''Failed to upsert document'' [ArgErr e] db')
           | (Inr u, doc, db') \<Rightarrow>
               upsert_loop cname upsert_key rest (c\<lparr>inserted := inserted c + 1\<rparr>) db'))"

text \<open>The one-by-one inserts after a failed bulk insert: a duplicate is skipped.\<close>

fun insert_loop ::
  "string \<Rightarrow> document list \<Rightarrow> store_counts \<Rightarrow> mongo \<Rightarrow> store_counts \<times> mongo" where
  "insert_loop cname [] c db = (c, db)"
| "insert_loop cname (document # rest) c db =
     (case insert_one cname document db of
        (Inl e, doc, db') \<Rightarrow>
          (if e = DuplicateKeyError then insert_loop cname rest c db'
           else insert_loop cname rest (c\<lparr>failed := failed c + 1\<rparr>)
                  (mlog ERROR ''Failed to insert document'' [ArgErr e] db'))
      | (Inr u, doc, db') \<Rightarrow> insert_loop cname rest (c\<lparr>inserted := inserted c + 1\<rparr>) db')"

definition store_data ::
  "pyenv \<Rightarrow> string \<Rightarrow> document list \<Rightarrow> string option \<Rightarrow> mongo
     \<Rightarrow> (pyerror + store_counts) \<times> mongo" where
  "store_data env collection_name data upsert_key db =
     (if data = []
      then (Inr \<lparr>inserted = 0, updated = 0, failed = 0\<rparr>,
            mlog WARNING ''No data provided for collection'' [ArgStr (py collection_name)] db)
      else if \<not> valid_collection_name collection_name
      then (Inl InvalidName,
            mlog ERROR ''Failed to store data'' [ArgErr InvalidName] db)
      else
        (let c0 = \<lparr>inserted = 0, updated = 0, failed = 0\<rparr>;
             (c, db1) =
               (if upsert_key \<noteq> None \<and> upsert_key \<noteq> Some []
                then upsert_loop collection_name (the upsert_key) data c0 db
                else
                  (case insert_many collection_name data db of
                     (Inr n, data', db') \<Rightarrow> (c0\<lparr>inserted := n\<rparr>, db')
                   | (Inl e, data', db') \<Rightarrow>
                       insert_loop collection_name data' c0
                         (mlog ERROR ''Bulk insert failed'' [ArgErr e] db')));
             db2 = log_data_operation env collection_name ''store'' (length data)
                     (inserted c) (updated c) db1
         in (Inr c, mlog INFO ''Stored data'' [ArgStr (py collection_name)] db2)))"

subsection \<open>\<open>cleanup_old_data\<close>\<close>

text \<open>
  \<open>datetime\<close> arithmetic: \<open>timedelta(days=n)\<close> and the subtraction raise
  \<open>OverflowError\<close> outside their ranges (the last instant is 9999-12-31T23:59:59.999999).
\<close>

definition microseconds_per_day :: int where
  "microseconds_per_day = 86400000000"

definition datetime_max :: int where
  "datetime_max = 3652059 * microseconds_per_day - 1"

definition timedelta_days :: "int \<Rightarrow> pyerror + int" where
  "timedelta_days n =
     (if \<bar>n\<bar> > 999999999 then Inl OverflowError else Inr (n * microseconds_per_day))"

definition datetime_sub :: "int \<Rightarrow> int \<Rightarrow> pyerror + int" where
  "datetime_sub t delta =
     (if t - delta < 0 \<or> datetime_max < t - delta then Inl OverflowError
      else Inr (t - delta))"

definition collections_to_clean :: "string list" where
  "collections_to_clean =
     [''canvas_students'', ''canvas_courses'', ''canvas_enrollments'',
      ''canvas_assignments'', ''canvas_submissions'',
      ''moodle_users'', ''moodle_courses'', ''moodle_enrollments'',
      ''attendance_records'', ''library_checkouts'']"

text \<open>
  The filter \<open>{'collected_at': {'$lt': cutoff}}\<close> with a string: only a string value
  compares with it, by code points.
\<close>

definition older_than :: "pystr \<Rightarrow> document \<Rightarrow> bool" where
  "older_than cutoff d =
     (case map_of d ''collected_at'' of
        Some (PStr t) \<Rightarrow> t < cutoff
      | _ \<Rightarrow> False)"

definition delete_many :: "string \<Rightarrow> pystr \<Rightarrow> mongo \<Rightarrow> (pyerror + nat) \<times> mongo" where
  "delete_many cname cutoff db =
     (if \<not> available db then (Inl ConnectionFailure, db)
      else (Inr (length (filter (older_than cutoff) (collections db cname))),
            db\<lparr>collections :=
                 (collections db)(cname :=
                    filter (\<lambda>d. \<not> older_than cutoff d) (collections db cname))\<rparr>))"

fun cleanup_loop :: "pyenv \<Rightarrow> pystr \<Rightarrow> string list \<Rightarrow> nat \<Rightarrow> mongo \<Rightarrow> nat \<times> mongo" where
  "cleanup_loop env cutoff [] total_deleted db = (total_deleted, db)"
| "cleanup_loop env cutoff (collection_name # rest) total_deleted db =
     (case delete_many collection_name cutoff db of
        (Inl e, db') \<Rightarrow>
          cleanup_loop env cutoff rest total_deleted
            (mlog ERROR ''Failed to cleanup'' [ArgStr (py collection_name), ArgErr e] db')
      | (Inr deleted_count, db') \<Rightarrow>
          cleanup_loop env cutoff rest (total_deleted + deleted_count)
            (if deleted_count > 0
             then log_data_operation env collection_name ''cleanup'' deleted_count 0 0
                    (mlog INFO ''Deleted old records''
                       [ArgNat deleted_count, ArgStr (py collection_name)] db')
             else db'))"

text \<open>The parameter \<open>days_to_keep\<close> is \<open>None\<close> when the caller leaves it out.\<close>

definition cleanup_old_data :: "pyenv \<Rightarrow> int option \<Rightarrow> mongo \<Rightarrow> (pyerror + nat) \<times> mongo" where
  "cleanup_old_data env days_to_keep db =
     (let days = (case days_to_keep of None \<Rightarrow> 2555 | Some n \<Rightarrow> n);
          now = utcnow env (clock db);
          db0 = db\<lparr>clock := Suc (clock db)\<rparr>
      in case timedelta_days days of
           Inl e \<Rightarrow> (Inl e, mlog ERROR ''Data cleanup failed'' [ArgErr e] db0)
         | Inr delta \<Rightarrow>
             (case datetime_sub now delta of
                Inl e \<Rightarrow> (Inl e, mlog ERROR ''Data cleanup failed'' [ArgErr e] db0)
              | Inr cutoff_date \<Rightarrow>
                  (case cleanup_loop env (isoformat env cutoff_date) collections_to_clean 0 db0 of
                     (total_deleted, db') \<Rightarrow>
                       (Inr total_deleted,
                        mlog INFO ''Data cleanup completed'' [ArgNat total_deleted] db'))))"

section \<open>A concrete runtime for the examples\<close>

text \<open>
  ASCII classes for \<open>\d\<close> and \<open>\w\<close>, and stand-ins with the output lengths of the real
  digests; the cipher of the examples fails at its third call.
\<close>

definition example_env :: pyenv where
  "example_env =
     \<lparr>isdecimal = in_range 48 57,
      isword = (\<lambda>c. in_range 48 57 c \<or> in_range 65 90 c \<or> in_range 97 122 c \<or> c = 95),
      sha256_hexdigest = (\<lambda>b. replicate 64 (48 + length b mod 10)),
      md5_hexdigest = (\<lambda>b. replicate 32 (48 + length b mod 10)),
      fernet_encrypt = (\<lambda>n b. if n = 2 then None else Some (n # b)),
      b64encode = (\<lambda>b. b),
      utcnow = (\<lambda>n. 63000000000000000 + int n),
      isoformat = str_of_int,
      datetime_str = str_of_int,
      objectid_str = digits_of_nat\<rparr>"

definition example_utils :: privacy_utils where
  "example_utils = \<lparr>ferpa_enabled = True, audit_enabled = True, anonymization_enabled = True\<rparr>"

definition example_heap :: "pydict list" where
  "example_heap =
     [[(''student_id'', PStr (py ''1001'')), (''email'', PStr (py ''jo@x.com'')),
       (''name'', PStr (py ''Jo'')), (''email_hash'', PStr (py ''old''))],
      [(''student_id'', PStr [55296])],
      [(''notes'', PStr (py ''a@b.com 555-123-4567''))]]"

definition example_state :: pystate where
  "example_state = \<lparr>heap = example_heap, logged = [], ticks = 0\<rparr>"

text \<open>
  A store for the examples: empty, answering, with the unique index that
  \<open>_setup_indexes\<close> creates on \<open>canvas_students.student_id\<close>; two anonymized
  records, a changed copy of the first, and the store after the first was written.
\<close>

definition example_db :: mongo where
  "example_db =
     \<lparr>collections = (\<lambda>c. []),
      unique_indexes = (\<lambda>c. if c = ''canvas_students'' then [''student_id''] else []),
      available = True, next_oid = 0, clock = 0, mlogged = []\<rparr>"

definition example_doc_a :: document where
  "example_doc_a =
     [(''student_id'', PStr (py ''1001'')), (''anonymous_id'', PStr (py ''anon_a''))]"

definition example_doc_b :: document where
  "example_doc_b =
     [(''student_id'', PStr (py ''1002'')), (''anonymous_id'', PStr (py ''anon_b''))]"

definition example_doc_a2 :: document where
  "example_doc_a2 =
     [(''student_id'', PStr (py ''1001'')), (''anonymous_id'', PStr (py ''anon_a'')),
      (''privacy_level'', PStr (py ''ferpa_compliant''))]"


text \<open>
  For the retention examples: a clock a few microseconds after the first instant, a
  rendering of instants that keeps their order, and a store with one record older and one
  newer than that clock.
\<close>

definition example_clock_env :: pyenv where
  "example_clock_env =
     example_env\<lparr>utcnow := (\<lambda>n. 5 + int n), isoformat := (\<lambda>t. replicate (nat t) 48)\<rparr>"

definition example_db_aged :: mongo where
  "example_db_aged =
     example_db\<lparr>collections :=
       (\<lambda>c. if c = ''canvas_students''
             then [[(''collected_at'', PStr [48])],
                   [(''collected_at'', PStr [48, 48, 48, 48, 48, 48, 48])]]
             else [])\<rparr>"

section \<open>Properties of the masks\<close>

lemma takeWhile_until: "a \<notin> set xs \<Longrightarrow> takeWhile (\<lambda>c. c \<noteq> a) (xs @ a # ys) = xs"
  by (induction xs) auto

lemma dropWhile_until: "a \<notin> set xs \<Longrightarrow> dropWhile (\<lambda>c. c \<noteq> a) (xs @ a # ys) = a # ys"
  by (induction xs) auto

lemma mask_email_split:
  assumes "64 \<notin> set local"
  shows "mask_email (local @ 64 # domain) =
     (if length local > 2
      then hd local # replicate (length local - 2) 42 @ [last local]
      else replicate (length local) 42) @ 64 # domain"
  using assms by (simp add: mask_email_def takeWhile_until dropWhile_until Let_def)

text \<open>
  Claim C5, as the code has it. \<open>_mask_email\<close> keeps everything after the first \<open>@\<close>;
  of a local part longer than two characters it keeps the first and the last character
  and stars the rest, and a local part of one or two characters is starred whole. A
  string without \<open>@\<close> is returned as it is. \<open>_mask_phone\<close> returns \<open>***-***-\<close> and the
  last four digits when the string has ten digits or more, and the constant
  \<open>***-***-****\<close> otherwise. \<open>_mask_ssn\<close> returns the constant \<open>***-**-****\<close>.
\<close>

theorem mask_formats:
  "(64 \<notin> set local \<and> 2 < length local \<longrightarrow>
      mask_email (local @ 64 # domain) =
        hd local # replicate (length local - 2) 42 @ last local # 64 # domain)
   \<and> (64 \<notin> set local \<and> length local \<le> 2 \<longrightarrow>
      mask_email (local @ 64 # domain) = replicate (length local) 42 @ 64 # domain)
   \<and> (64 \<notin> set email \<longrightarrow> mask_email email = email)
   \<and> (10 \<le> length (filter (isdecimal env) phone) \<longrightarrow>
      mask_phone env phone =
        py ''***-***-'' @ drop (length (filter (isdecimal env) phone) - 4)
                            (filter (isdecimal env) phone))
   \<and> (length (filter (isdecimal env) phone) < 10 \<longrightarrow>
      mask_phone env phone = py ''***-***-****'')
   \<and> mask_ssn ssn = py ''***-**-****''"
  by (simp add: mask_email_split mask_phone_def mask_ssn_def Let_def) (simp add: mask_email_def)

theorem mask_formats_witness:
  "64 \<notin> set (py ''john'') \<and> 2 < length (py ''john'')
   \<and> mask_email (py ''john'' @ 64 # py ''x.com'') = py ''j**n@x.com''
   \<and> 64 \<notin> set (py ''jo'') \<and> length (py ''jo'') \<le> 2
   \<and> mask_email (py ''jo'' @ 64 # py ''x.com'') = py ''**@x.com''
   \<and> 64 \<notin> set (py ''none'') \<and> mask_email (py ''none'') = py ''none''
   \<and> 10 \<le> length (filter (isdecimal example_env) (py ''555-123-4567''))
   \<and> mask_phone example_env (py ''555-123-4567'') = py ''***-***-4567''
   \<and> length (filter (isdecimal example_env) (py ''555-1234'')) < 10
   \<and> mask_phone example_env (py ''555-1234'') = py ''***-***-****''
   \<and> mask_ssn (py ''123-45-6789'') = py ''***-**-****''"
  using mask_formats [of "py ''john''" "py ''x.com''" "py ''none''" example_env
                         "py ''555-123-4567''" "py ''9''"]
        mask_formats [of "py ''jo''" "py ''x.com''" "py ''none''" example_env
                         "py ''555-1234''" "py ''123-45-6789''"]
  by (simp add: py_def example_env_def in_range_def)

text \<open>
  The claim as the specification states it fails on its own example: the two-character
  local part of \<open>jo@x.com\<close> keeps neither its first nor its last character.
\<close>

theorem mask_email_short_local_counterexample:
  "mask_email (py ''jo@x.com'') = py ''**@x.com''
   \<and> hd (mask_email (py ''jo@x.com'')) \<noteq> hd (py ''jo@x.com'')
   \<and> mask_phone example_env (py ''555-1234'') = py ''***-***-****''"
  by (simp add: mask_email_def mask_phone_def py_def example_env_def in_range_def)

section \<open>The masking pass\<close>

lemma example_notes_email:
  "re_search_bounded example_env email_pattern (py ''a@b.com 555-123-4567'')"
  by code_simp

lemma example_notes_phone:
  "re_search_bounded example_env (phone_pattern example_env) (py ''a@b.com 555-123-4567'')"
  by code_simp

lemma example_notes_masked:
  "mask_email (py ''a@b.com 555-123-4567'') = py ''*@b.com 555-123-4567''"
  by (simp add: mask_email_def py_def)

text \<open>
  Claim C10. In the masking pass of \<open>_anonymize_record\<close> every top-level field keeps
  its key and its position; a string value receives the mask of the first pattern found in
  the order email, phone, national identifier, and only that one, whatever other patterns
  it also contains; a string matching no pattern and a value that is not a string are left
  unchanged.
\<close>

theorem anonymize_record_first_match:
  assumes "a < length (heap s)" and "i < length (heap s ! a)"
    and "heap s ! a ! i = (key, value)"
  shows "length (heap (anonymize_record env a s) ! a) = length (heap s ! a)
    \<and> heap (anonymize_record env a s) ! a ! i =
        (key,
         case value of
           PStr v \<Rightarrow>
             if re_search_bounded env email_pattern v then PStr (mask_email v)
             else if re_search_bounded env (phone_pattern env) v then PStr (mask_phone env v)
             else if re_search_bounded env (ssn_pattern env) v then PStr (mask_ssn v)
             else PStr v
         | _ \<Rightarrow> value)"
  using assms by (simp add: anonymize_record_def mask_field_value_def split: pyval.splits)

theorem anonymize_record_first_match_witness:
  "2 < length (heap example_state) \<and> 0 < length (heap example_state ! 2)
   \<and> heap example_state ! 2 ! 0 = (''notes'', PStr (py ''a@b.com 555-123-4567''))
   \<and> re_search_bounded example_env email_pattern (py ''a@b.com 555-123-4567'')
   \<and> re_search_bounded example_env (phone_pattern example_env) (py ''a@b.com 555-123-4567'')
   \<and> heap (anonymize_record example_env 2 example_state) ! 2 ! 0 =
       (''notes'', PStr (py ''*@b.com 555-123-4567''))"
proof -
  have h: "2 < length (heap example_state)" "0 < length (heap example_state ! 2)"
    "heap example_state ! 2 ! 0 = (''notes'', PStr (py ''a@b.com 555-123-4567''))"
    by (simp_all add: example_state_def example_heap_def)
  show ?thesis
    using h anonymize_record_first_match [OF h, of example_env]
    by (simp add: example_notes_email example_notes_phone example_notes_masked)
qed

section \<open>The pseudonym\<close>


text \<open>Encoding plain ASCII text gives the same bytes; a lone surrogate is refused.\<close>

lemma str_encode_ascii: "\<forall>c\<in>set s. c < 128 \<Longrightarrow> str_encode s = Some s"
proof -
  assume a: "\<forall>c\<in>set s. c < 128"
  then have "concat (map utf8_char s) = s"
    by (induction s) (simp_all add: utf8_char_def)
  moreover have "\<not> list_ex (\<lambda>c. is_surrogate c \<or> 1114111 < c) s"
    using a by (fastforce simp add: list_ex_iff is_surrogate_def)
  ultimately show ?thesis by (simp add: str_encode_def)
qed

lemma str_encode_surrogate: "str_encode [55296] = None"
  by (simp add: str_encode_def is_surrogate_def)



section \<open>The heap under the anonymizer\<close>

lemma heap_log_msg [simp]: "heap (log_msg lv msg args s) = heap s"
  by (simp add: log_msg_def)

lemma heap_log_privacy_event [simp]:
  "heap (log_privacy_event env self ev details s) = heap s"
  by (simp add: log_privacy_event_def)

lemma heap_setitem [simp]:
  "heap (setitem a k v s) = (heap s)[a := AList.update k v (heap s ! a)]"
  by (simp add: setitem_def)

lemma heap_delitem [simp]:
  "heap (delitem a k s) = (heap s)[a := AList.delete k (heap s ! a)]"
  by (simp add: delitem_def)

lemma heap_anonymize_record [simp]:
  "heap (anonymize_record env a s) =
     (heap s)[a := map (\<lambda>(key, value). (key, mask_field_value env value)) (heap s ! a)]"
  by (simp add: anonymize_record_def)

lemma heap_generate_anonymous_id [simp]:
  "heap (snd (generate_anonymous_id env x s)) = heap s"
  by (simp add: generate_anonymous_id_def split: option.splits)

lemma heap_hash_field [simp]: "heap (snd (hash_field env x s)) = heap s"
  by (simp add: hash_field_def split: option.splits)

lemma heap_encrypt_field [simp]: "heap (snd (encrypt_field env x s)) = heap s"
  by (simp add: encrypt_field_def split: option.splits)

lemma self_update: "\<exists>d. xs = xs[a := d]"
  by (rule exI [of _ "xs ! a"]) simp

lemma heap_student_pii_loop:
  "\<exists>d. heap (snd (student_pii_loop env a fs s)) = (heap s)[a := d]"
proof (induction fs arbitrary: s)
  case Nil
  show ?case by (simp add: self_update)
next
  case (Cons f fs)
  show ?case
  proof (cases "map_of (heap s ! a) f")
    case None
    then show ?thesis using Cons.IH [of s] by simp
  next
    case (Some v)
    show ?thesis
    proof (cases "f \<in> set sensitive_fields")
      case True
      obtain r s1 where e: "encrypt_field env (py_str env v) s = (r, s1)"
        by (cases "encrypt_field env (py_str env v) s")
      have h1: "heap s1 = heap s" using heap_encrypt_field [of env "py_str env v" s] e by simp
      show ?thesis
      proof (cases r)
        case (Inl x)
        then show ?thesis using Some True e h1 by (simp add: self_update)
      next
        case (Inr c)
        let ?s2 = "delitem a f (setitem a (f @ ''_encrypted'') (PStr c) s1)"
        obtain d where "heap (snd (student_pii_loop env a fs ?s2)) = (heap ?s2)[a := d]"
          using Cons.IH [of ?s2] by blast
        then have "heap (snd (student_pii_loop env a fs ?s2)) = (heap s)[a := d]"
          by (simp add: h1)
        then show ?thesis using Some True e Inr by auto
      qed
    next
      case False
      obtain r s1 where e: "hash_field env (py_str env v) s = (r, s1)"
        by (cases "hash_field env (py_str env v) s")
      have h1: "heap s1 = heap s" using heap_hash_field [of env "py_str env v" s] e by simp
      show ?thesis
      proof (cases r)
        case (Inl x)
        then show ?thesis using Some False e h1 by (simp add: self_update)
      next
        case (Inr c)
        let ?s2 = "delitem a f (setitem a (f @ ''_hash'') (PStr c) s1)"
        obtain d where "heap (snd (student_pii_loop env a fs ?s2)) = (heap ?s2)[a := d]"
          using Cons.IH [of ?s2] by blast
        then have "heap (snd (student_pii_loop env a fs ?s2)) = (heap s)[a := d]"
          by (simp add: h1)
        then show ?thesis using Some False e Inr by auto
      qed
    qed
  qed
qed


lemma heap_usage_pii_loop: "\<exists>d. heap (usage_pii_loop a fs s) = (heap s)[a := d]"
proof (induction fs arbitrary: s)
  case Nil
  show ?case by (simp add: self_update)
next
  case (Cons f fs)
  show ?case
  proof (cases "map_of (heap s ! a) f")
    case None
    then show ?thesis using Cons.IH [of s] by simp
  next
    case (Some v)
    obtain d where "heap (usage_pii_loop a fs (delitem a f s)) = (heap (delitem a f s))[a := d]"
      using Cons.IH [of "delitem a f s"] by blast
    then show ?thesis using Some by auto
  qed
qed

text \<open>One turn of either loop appends exactly one object to the heap.\<close>

lemma heap_anonymize_student:
  "\<exists>d. heap (snd (anonymize_student env student s)) = heap s @ [d]"
proof -
  let ?a = "length (heap s)"
  let ?s1 = "s\<lparr>heap := heap s @ [heap s ! student]\<rparr>"
  let ?s2 = "anonymize_record env ?a ?s1"
  have h2: "\<exists>d. heap ?s2 = heap s @ [d]" by simp
  show ?thesis
  proof (cases "map_of (heap ?s2 ! student) ''student_id''")
    case None
    obtain d where d: "heap (snd (student_pii_loop env ?a pii_fields ?s2)) = (heap ?s2)[?a := d]"
      using heap_student_pii_loop by blast
    obtain r s4 where r: "student_pii_loop env ?a pii_fields ?s2 = (r, s4)"
      by (cases "student_pii_loop env ?a pii_fields ?s2")
    have "heap s4 = heap s @ [d]" using d r by simp
    then show ?thesis using None r
      by (cases r) (simp_all add: anonymize_student_def dict_copy_def Let_def)
  next
    case (Some sid)
    obtain g s3 where g: "generate_anonymous_id env (py_str env sid) ?s2 = (g, s3)"
      by (cases "generate_anonymous_id env (py_str env sid) ?s2")
    have h3: "heap s3 = heap ?s2"
      using heap_generate_anonymous_id [of env "py_str env sid" ?s2] g by simp
    show ?thesis
    proof (cases g)
      case (Inl e)
      then show ?thesis using Some g h3
        by (simp add: anonymize_student_def dict_copy_def Let_def)
    next
      case (Inr anon)
      let ?s3' = "setitem ?a ''anonymous_id'' (PStr anon) s3"
      obtain d where d: "heap (snd (student_pii_loop env ?a pii_fields ?s3')) = (heap ?s3')[?a := d]"
        using heap_student_pii_loop by blast
      obtain r s4 where r: "student_pii_loop env ?a pii_fields ?s3' = (r, s4)"
        by (cases "student_pii_loop env ?a pii_fields ?s3'")
      have "heap s4 = heap s @ [d]" using d r h3 by simp
      then show ?thesis using Some g Inr r
        by (cases r) (simp_all add: anonymize_student_def dict_copy_def Let_def)
    qed
  qed
qed

lemma heap_anonymize_usage_record:
  "\<exists>d. heap (snd (anonymize_usage_record env record s)) = heap s @ [d]"
proof -
  let ?a = "length (heap s)"
  let ?s1 = "s\<lparr>heap := heap s @ [heap s ! record]\<rparr>"
  let ?s2 = "anonymize_record env ?a ?s1"
  show ?thesis
  proof (cases "map_of (heap ?s2 ! record) ''student_id''")
    case None
    obtain d where d: "heap (usage_pii_loop ?a pii_fields ?s2) = (heap ?s2)[?a := d]"
      using heap_usage_pii_loop by blast
    then show ?thesis using None
      by (simp add: anonymize_usage_record_def dict_copy_def Let_def)
  next
    case (Some sid)
    obtain g s3 where g: "generate_anonymous_id env (py_str env sid) ?s2 = (g, s3)"
      by (cases "generate_anonymous_id env (py_str env sid) ?s2")
    have h3: "heap s3 = heap ?s2"
      using heap_generate_anonymous_id [of env "py_str env sid" ?s2] g by simp
    show ?thesis
    proof (cases g)
      case (Inl e)
      then show ?thesis using Some g h3
        by (simp add: anonymize_usage_record_def dict_copy_def Let_def)
    next
      case (Inr anon)
      let ?s3' = "delitem ?a ''student_id'' (setitem ?a ''anonymous_id'' (PStr anon) s3)"
      obtain d where d: "heap (usage_pii_loop ?a pii_fields ?s3') = (heap ?s3')[?a := d]"
        using heap_usage_pii_loop by blast
      then show ?thesis using Some g Inr h3
        by (simp add: anonymize_usage_record_def dict_copy_def Let_def)
    qed
  qed
qed


lemma anonymize_student_addr:
  "anonymize_student env student s = (Inr a, s') \<Longrightarrow> a = length (heap s)"
  by (auto simp add: anonymize_student_def dict_copy_def Let_def
           split: option.splits prod.splits sum.splits)

lemma anonymize_usage_record_addr:
  "anonymize_usage_record env record s = (Inr a, s') \<Longrightarrow> a = length (heap s)"
  by (auto simp add: anonymize_usage_record_def dict_copy_def Let_def
           split: option.splits prod.splits sum.splits)

lemma student_loop_prefix: "prefix (heap s) (heap (snd (student_loop env sts acc s)))"
proof (induction sts arbitrary: acc s)
  case Nil
  show ?case by simp
next
  case (Cons st sts)
  obtain r s1 where r: "anonymize_student env st s = (r, s1)"
    by (cases "anonymize_student env st s")
  obtain d where d: "heap s1 = heap s @ [d]"
    using heap_anonymize_student [of env st s] r by auto
  show ?case
  proof (cases r)
    case (Inl e)
    then show ?thesis using r d by simp
  next
    case (Inr a)
    have "prefix (heap s1) (heap (snd (student_loop env sts (acc @ [a]) s1)))"
      by (rule Cons.IH)
    moreover have "prefix (heap s) (heap s1)" using d by simp
    ultimately show ?thesis using r Inr by (auto intro: prefix_order.trans)
  qed
qed

lemma student_loop_addrs:
  "student_loop env sts acc s = (Inr out, s') \<Longrightarrow>
     out = acc @ [length (heap s) ..< length (heap s) + length sts]
     \<and> length (heap s') = length (heap s) + length sts"
proof (induction sts arbitrary: acc s)
  case Nil
  then show ?case by simp
next
  case (Cons st sts)
  obtain r s1 where r: "anonymize_student env st s = (r, s1)"
    by (cases "anonymize_student env st s")
  obtain d where d: "heap s1 = heap s @ [d]"
    using heap_anonymize_student [of env st s] r by auto
  show ?case
  proof (cases r)
    case (Inl e)
    then show ?thesis using r Cons.prems by simp
  next
    case (Inr a)
    have a: "a = length (heap s)" using anonymize_student_addr r Inr by blast
    have "student_loop env sts (acc @ [a]) s1 = (Inr out, s')"
      using Cons.prems r Inr by simp
    from Cons.IH [OF this]
    have "out = (acc @ [a]) @ [length (heap s1) ..< length (heap s1) + length sts]"
      and "length (heap s') = length (heap s1) + length sts" by simp_all
    moreover have "[length (heap s) ..< length (heap s) + Suc n] =
        length (heap s) # [Suc (length (heap s)) ..< Suc (length (heap s)) + n]" for n
      by (simp add: upt_conv_Cons)
    ultimately show ?thesis using a d by simp
  qed
qed

lemma usage_loop_prefix: "prefix (heap s) (heap (snd (usage_loop env rs acc s)))"
proof (induction rs arbitrary: acc s)
  case Nil
  show ?case by simp
next
  case (Cons r0 rs)
  obtain r s1 where r: "anonymize_usage_record env r0 s = (r, s1)"
    by (cases "anonymize_usage_record env r0 s")
  obtain d where d: "heap s1 = heap s @ [d]"
    using heap_anonymize_usage_record [of env r0 s] r by auto
  show ?case
  proof (cases r)
    case (Inl e)
    then show ?thesis using r d by simp
  next
    case (Inr a)
    have "prefix (heap s1) (heap (snd (usage_loop env rs (acc @ [a]) s1)))"
      by (rule Cons.IH)
    moreover have "prefix (heap s) (heap s1)" using d by simp
    ultimately show ?thesis using r Inr by (auto intro: prefix_order.trans)
  qed
qed

lemma usage_loop_addrs:
  "usage_loop env rs acc s = (Inr out, s') \<Longrightarrow>
     out = acc @ [length (heap s) ..< length (heap s) + length rs]
     \<and> length (heap s') = length (heap s) + length rs"
proof (induction rs arbitrary: acc s)
  case Nil
  then show ?case by simp
next
  case (Cons r0 rs)
  obtain r s1 where r: "anonymize_usage_record env r0 s = (r, s1)"
    by (cases "anonymize_usage_record env r0 s")
  obtain d where d: "heap s1 = heap s @ [d]"
    using heap_anonymize_usage_record [of env r0 s] r by auto
  show ?case
  proof (cases r)
    case (Inl e)
    then show ?thesis using r Cons.prems by simp
  next
    case (Inr a)
    have a: "a = length (heap s)" using anonymize_usage_record_addr r Inr by blast
    have "usage_loop env rs (acc @ [a]) s1 = (Inr out, s')"
      using Cons.prems r Inr by simp
    from Cons.IH [OF this]
    have "out = (acc @ [a]) @ [length (heap s1) ..< length (heap s1) + length rs]"
      and "length (heap s') = length (heap s1) + length rs" by simp_all
    moreover have "[length (heap s) ..< length (heap s) + Suc n] =
        length (heap s) # [Suc (length (heap s)) ..< Suc (length (heap s)) + n]" for n
      by (simp add: upt_conv_Cons)
    ultimately show ?thesis using a d by simp
  qed
qed

text \<open>
  Claim C8. The three anonymize operations never change an object that existed before the
  call: the heap after the call extends the heap before it, whether the call returns or
  raises, so every input record (and anything else the caller holds) reads as before. With
  anonymization enabled, the returned list holds the objects newly allocated by the call,
  one per input record and in input order, so no returned record is an input record.
\<close>

theorem anonymize_leaves_input_unchanged:
  "prefix (heap s) (heap (snd (anonymize_student_data env self records s)))
   \<and> prefix (heap s) (heap (snd (anonymize_attendance_data env self records s)))
   \<and> prefix (heap s) (heap (snd (anonymize_library_data env self records s)))
   \<and> (anonymization_enabled self \<longrightarrow>
        (\<forall>out. fst (anonymize_student_data env self records s) = Inr out
                \<or> fst (anonymize_attendance_data env self records s) = Inr out
                \<or> fst (anonymize_library_data env self records s) = Inr out
           \<longrightarrow> out = [length (heap s) ..< length (heap s) + length records]))"
proof -
  have p1: "prefix (heap s) (heap (snd (anonymize_student_data env self records s)))"
    using student_loop_prefix [of s env records "[]"]
    by (cases "student_loop env records [] s")
       (auto simp add: anonymize_student_data_def split: sum.splits)
  have p2: "prefix (heap s) (heap (snd (anonymize_attendance_data env self records s)))"
    using usage_loop_prefix [of s env records "[]"]
    by (cases "usage_loop env records [] s")
       (auto simp add: anonymize_attendance_data_def split: sum.splits)
  have p3: "prefix (heap s) (heap (snd (anonymize_library_data env self records s)))"
    using usage_loop_prefix [of s env records "[]"]
    by (cases "usage_loop env records [] s")
       (auto simp add: anonymize_library_data_def split: sum.splits)
  have a1: "anonymization_enabled self \<Longrightarrow>
      fst (anonymize_student_data env self records s) = Inr out \<Longrightarrow>
      out = [length (heap s) ..< length (heap s) + length records]" for out
    using student_loop_addrs [of env records "[]" s out]
    by (cases "student_loop env records [] s")
       (auto simp add: anonymize_student_data_def split: sum.splits)
  have a2: "anonymization_enabled self \<Longrightarrow>
      fst (anonymize_attendance_data env self records s) = Inr out \<Longrightarrow>
      out = [length (heap s) ..< length (heap s) + length records]" for out
    using usage_loop_addrs [of env records "[]" s out]
    by (cases "usage_loop env records [] s")
       (auto simp add: anonymize_attendance_data_def split: sum.splits)
  have a3: "anonymization_enabled self \<Longrightarrow>
      fst (anonymize_library_data env self records s) = Inr out \<Longrightarrow>
      out = [length (heap s) ..< length (heap s) + length records]" for out
    using usage_loop_addrs [of env records "[]" s out]
    by (cases "usage_loop env records [] s")
       (auto simp add: anonymize_library_data_def split: sum.splits)
  show ?thesis using p1 p2 p3 a1 a2 a3 by blast
qed


lemma example_attendance_result:
  "fst (anonymize_attendance_data example_env example_utils [2] example_state) = Inr [3]"
  by (simp add: anonymize_attendance_data_def example_utils_def anonymize_usage_record_def
        dict_copy_def anonymize_record_def example_state_def example_heap_def
        pii_fields_def setitem_def delitem_def Let_def)

theorem anonymize_leaves_input_unchanged_witness:
  "anonymization_enabled example_utils
   \<and> fst (anonymize_attendance_data example_env example_utils [2] example_state) = Inr [3]
   \<and> [3] = [length (heap example_state) ..< length (heap example_state) + length [2::nat]]
   \<and> prefix (heap example_state)
        (heap (snd (anonymize_attendance_data example_env example_utils [2] example_state)))"
  using anonymize_leaves_input_unchanged [of example_state example_env example_utils "[2]"]
        example_attendance_result
  by (simp add: example_utils_def)

section \<open>The content of an anonymized student record\<close>

lemma prefix_nth: "prefix xs ys \<Longrightarrow> i < length xs \<Longrightarrow> ys ! i = xs ! i"
  by (auto simp add: prefix_def nth_append)

lemma hash_field_result:
  "hash_field env x s = (Inr h, s1) \<Longrightarrow>
     \<exists>b. str_encode x = Some b \<and> h = sha256_hexdigest env b"
  by (auto simp add: hash_field_def Let_def split: option.splits)

lemma encrypt_field_result:
  "encrypt_field env x s = (Inr c, s1) \<Longrightarrow>
     \<exists>b. str_encode x = Some b \<and>
         c = (case fernet_encrypt env (ticks s) b of
                Some t \<Rightarrow> b64encode env t | None \<Rightarrow> sha256_hexdigest env b)"
  by (auto simp add: encrypt_field_def hash_field_def Let_def split: option.splits)

lemma suffix_keys_differ: "f @ ''_encrypted'' \<noteq> g @ ''_hash''"
proof
  assume "f @ ''_encrypted'' = g @ ''_hash''"
  then have "last (f @ ''_encrypted'') = last (g @ ''_hash'')" by simp
  then show False by simp
qed

lemma pii_fields_distinct: "distinct pii_fields"
  by (simp add: pii_fields_def)

lemma pii_fields_no_clash:
  "f \<in> set pii_fields \<Longrightarrow> f @ ''_encrypted'' \<notin> set pii_fields \<and> f @ ''_hash'' \<notin> set pii_fields"
  by (auto simp add: pii_fields_def)

lemma map_of_setitem:
  "a < length (heap s) \<Longrightarrow>
     map_of (heap (setitem a k v s) ! a) = (map_of (heap s ! a))(k \<mapsto> v)"
  by (simp add: update_conv')

lemma map_of_delitem:
  "a < length (heap s) \<Longrightarrow>
     map_of (heap (delitem a k s) ! a) = (map_of (heap s ! a))(k := None)"
  by (simp add: delete_conv')

lemma length_heap_setitem [simp]: "length (heap (setitem a k v s)) = length (heap s)"
  by simp

lemma length_heap_delitem [simp]: "length (heap (delitem a k s)) = length (heap s)"
  by simp


lemma pii_step_result:
  assumes "(if f \<in> set sensitive_fields then encrypt_field env x s else hash_field env x s)
             = (Inr c, s1)"
  shows "heap s1 = heap s
    \<and> (\<exists>b n. str_encode x = Some b \<and>
           c = (if f \<in> set sensitive_fields
                then (case fernet_encrypt env n b of
                        Some t \<Rightarrow> b64encode env t | None \<Rightarrow> sha256_hexdigest env b)
                else sha256_hexdigest env b))"
proof (cases "f \<in> set sensitive_fields")
  case True
  then have e: "encrypt_field env x s = (Inr c, s1)" using assms by simp
  have "heap s1 = heap s" using heap_encrypt_field [of env x s] e by simp
  then show ?thesis using encrypt_field_result [OF e] True by auto
next
  case False
  then have e: "hash_field env x s = (Inr c, s1)" using assms by simp
  have "heap s1 = heap s" using heap_hash_field [of env x s] e by simp
  then show ?thesis using hash_field_result [OF e] False by auto
qed

lemma student_pii_loop_unfold:
  assumes "map_of (heap s ! a) f = Some v"
    and "student_pii_loop env a (f # fs) s = (Inr u, s')"
  shows "\<exists>c s1.
      (if f \<in> set sensitive_fields then encrypt_field env (py_str env v) s
       else hash_field env (py_str env v) s) = (Inr c, s1)
    \<and> student_pii_loop env a fs
        (delitem a f
           (setitem a (f @ (if f \<in> set sensitive_fields then ''_encrypted'' else ''_hash''))
              (PStr c) s1)) = (Inr u, s')"
  using assms by (auto split: prod.splits sum.splits if_splits)


lemma student_pii_loop_content:
  assumes repl: "repl = (\<lambda>f. f @ (if f \<in> set sensitive_fields then ''_encrypted'' else ''_hash''))"
  shows "student_pii_loop env a fs s = (Inr u, s') \<Longrightarrow> a < length (heap s) \<Longrightarrow>
     distinct fs \<Longrightarrow> (\<forall>f\<in>set fs. repl f \<notin> set fs) \<Longrightarrow>
     (\<forall>f\<in>set fs. map_of (heap s' ! a) f = None)
   \<and> (\<forall>f\<in>set fs. \<forall>v. map_of (heap s ! a) f = Some v \<longrightarrow>
         (\<exists>b n. str_encode (py_str env v) = Some b \<and>
            map_of (heap s' ! a) (repl f) =
              Some (PStr (if f \<in> set sensitive_fields
                          then (case fernet_encrypt env n b of
                                  Some t \<Rightarrow> b64encode env t | None \<Rightarrow> sha256_hexdigest env b)
                          else sha256_hexdigest env b))))
   \<and> (\<forall>k. k \<notin> set fs \<longrightarrow> (\<forall>f\<in>set fs. map_of (heap s ! a) f \<noteq> None \<longrightarrow> k \<noteq> repl f) \<longrightarrow>
          map_of (heap s' ! a) k = map_of (heap s ! a) k)
   \<and> length (heap s') = length (heap s)"
proof (induction fs arbitrary: s)
  case Nil
  then show ?case by simp
next
  case (Cons f0 fs)
  have r1: "repl f \<noteq> f" for f by (simp add: repl)
  have r2: "repl f = repl g \<Longrightarrow> f = g" for f g
    using suffix_keys_differ [of f g] suffix_keys_differ [of g f]
    by (auto simp add: repl split: if_splits)
  have d: "distinct fs" "f0 \<notin> set fs" using Cons.prems(3) by simp_all
  have nc: "\<forall>f\<in>set fs. repl f \<notin> set fs" "repl f0 \<notin> set fs" "\<forall>f\<in>set fs. repl f \<noteq> f0"
    using Cons.prems(4) by auto
  let ?m = "map_of (heap s ! a)"
  let ?m' = "map_of (heap s' ! a)"
  show ?case
  proof (cases "?m f0")
    case None
    have l: "student_pii_loop env a fs s = (Inr u, s')" using Cons.prems(1) None by simp
    note ih = Cons.IH [OF l Cons.prems(2) d(1) nc(1)]
    have i1: "\<forall>f\<in>set fs. ?m' f = None" using ih by blast
    have i3: "\<And>k. k \<notin> set fs \<Longrightarrow> (\<forall>f\<in>set fs. ?m f \<noteq> None \<longrightarrow> k \<noteq> repl f) \<Longrightarrow> ?m' k = ?m k"
      using ih by blast
    have "?m' f0 = ?m f0" using i3 [of f0] d(2) nc(3) by auto
    then have a1: "\<forall>f\<in>set (f0 # fs). ?m' f = None" using i1 None by simp
    have a2: "\<forall>f\<in>set (f0 # fs). \<forall>v. ?m f = Some v \<longrightarrow>
         (\<exists>b n. str_encode (py_str env v) = Some b \<and>
            ?m' (repl f) =
              Some (PStr (if f \<in> set sensitive_fields
                          then (case fernet_encrypt env n b of
                                  Some t \<Rightarrow> b64encode env t | None \<Rightarrow> sha256_hexdigest env b)
                          else sha256_hexdigest env b)))"
      using ih None by simp
    have a3: "\<forall>k. k \<notin> set (f0 # fs) \<longrightarrow>
          (\<forall>f\<in>set (f0 # fs). ?m f \<noteq> None \<longrightarrow> k \<noteq> repl f) \<longrightarrow> ?m' k = ?m k"
      using i3 by simp
    have a4: "length (heap s') = length (heap s)" using ih by blast
    show ?thesis using a1 a2 a3 a4 by blast
  next
    case (Some v)
    obtain c s1 where
      e: "(if f0 \<in> set sensitive_fields then encrypt_field env (py_str env v) s
           else hash_field env (py_str env v) s) = (Inr c, s1)"
      and l0: "student_pii_loop env a fs
                (delitem a f0 (setitem a (repl f0) (PStr c) s1)) = (Inr u, s')"
      using student_pii_loop_unfold [OF Some Cons.prems(1)] by (auto simp add: repl)
    define s2 where "s2 = delitem a f0 (setitem a (repl f0) (PStr c) s1)"
    let ?m2 = "map_of (heap s2 ! a)"
    have l: "student_pii_loop env a fs s2 = (Inr u, s')" using l0 by (simp add: s2_def)
    have h1: "heap s1 = heap s" using pii_step_result [OF e] by blast
    obtain b n where b: "str_encode (py_str env v) = Some b"
      and c: "c = (if f0 \<in> set sensitive_fields
                then (case fernet_encrypt env n b of
                        Some t \<Rightarrow> b64encode env t | None \<Rightarrow> sha256_hexdigest env b)
                else sha256_hexdigest env b)"
      using pii_step_result [OF e] by blast
    have len2: "a < length (heap s2)" "length (heap s2) = length (heap s)"
      using Cons.prems(2) h1 by (simp_all add: s2_def)
    have m2: "?m2 = (?m(repl f0 \<mapsto> PStr c))(f0 := None)"
      using Cons.prems(2) h1 by (simp add: s2_def update_conv' delete_conv')
    note ih = Cons.IH [OF l len2(1) d(1) nc(1)]
    have i1: "\<forall>f\<in>set fs. ?m' f = None" using ih by blast
    have i2: "\<And>f v. f \<in> set fs \<Longrightarrow> ?m2 f = Some v \<Longrightarrow>
         (\<exists>b n. str_encode (py_str env v) = Some b \<and>
            ?m' (repl f) =
              Some (PStr (if f \<in> set sensitive_fields
                          then (case fernet_encrypt env n b of
                                  Some t \<Rightarrow> b64encode env t | None \<Rightarrow> sha256_hexdigest env b)
                          else sha256_hexdigest env b)))"
      using ih by blast
    have i3: "\<And>k. k \<notin> set fs \<Longrightarrow> (\<forall>f\<in>set fs. ?m2 f \<noteq> None \<longrightarrow> k \<noteq> repl f) \<Longrightarrow> ?m' k = ?m2 k"
      using ih by blast
    have i4: "length (heap s') = length (heap s)" using ih len2(2) by simp
    have same: "\<And>f. f \<in> set fs \<Longrightarrow> ?m2 f = ?m f"
      using d(2) nc(2) by (auto simp add: m2)
    have "?m' f0 = ?m2 f0" using i3 [of f0] d(2) nc(3) by auto
    then have f0_gone: "?m' f0 = None" by (simp add: m2)
    have "?m' (repl f0) = ?m2 (repl f0)"
      using i3 [of "repl f0"] nc(2) d(2) r2 by blast
    then have f0_repl: "?m' (repl f0) = Some (PStr c)" using r1 [of f0] by (simp add: m2)
    have a1: "\<forall>f\<in>set (f0 # fs). ?m' f = None" using i1 f0_gone by simp
    have a2: "\<forall>f\<in>set (f0 # fs). \<forall>v. ?m f = Some v \<longrightarrow>
         (\<exists>b n. str_encode (py_str env v) = Some b \<and>
            ?m' (repl f) =
              Some (PStr (if f \<in> set sensitive_fields
                          then (case fernet_encrypt env n b of
                                  Some t \<Rightarrow> b64encode env t | None \<Rightarrow> sha256_hexdigest env b)
                          else sha256_hexdigest env b)))"
    proof (intro ballI allI impI)
      fix f w assume f: "f \<in> set (f0 # fs)" and w: "?m f = Some w"
      show "\<exists>b n. str_encode (py_str env w) = Some b \<and>
            ?m' (repl f) =
              Some (PStr (if f \<in> set sensitive_fields
                          then (case fernet_encrypt env n b of
                                  Some t \<Rightarrow> b64encode env t | None \<Rightarrow> sha256_hexdigest env b)
                          else sha256_hexdigest env b))"
      proof (cases "f = f0")
        case True
        then have "w = v" using w Some by simp
        then show ?thesis using True b c f0_repl by blast
      next
        case False
        then have "f \<in> set fs" using f by simp
        then show ?thesis using i2 [of f w] same [of f] w by simp
      qed
    qed
    have a3: "\<forall>k. k \<notin> set (f0 # fs) \<longrightarrow>
          (\<forall>f\<in>set (f0 # fs). ?m f \<noteq> None \<longrightarrow> k \<noteq> repl f) \<longrightarrow> ?m' k = ?m k"
    proof (intro allI impI)
      fix k assume k: "k \<notin> set (f0 # fs)"
        and k2: "\<forall>f\<in>set (f0 # fs). ?m f \<noteq> None \<longrightarrow> k \<noteq> repl f"
      have "k \<noteq> repl f0" using k2 Some by simp
      then have "?m2 k = ?m k" using k by (simp add: m2)
      moreover have "?m' k = ?m2 k" using i3 [of k] k k2 same by simp
      ultimately show "?m' k = ?m k" by simp
    qed
    show ?thesis using a1 a2 a3 i4 by blast
  qed
qed


lemma generate_anonymous_id_result:
  "generate_anonymous_id env x s = (Inr y, s1) \<Longrightarrow>
     heap s1 = heap s \<and>
     (\<exists>b. str_encode x = Some b \<and> y = py ''anon_'' @ take 16 (sha256_hexdigest env b))"
  by (auto simp add: generate_anonymous_id_def Let_def split: option.splits)

lemma suffix_key_rev: "f @ suf = k \<Longrightarrow> rev suf @ rev f = rev k"
  by auto

lemma replacement_key_fresh:
  "f @ ''_encrypted'' \<noteq> ''anonymous_id''" "f @ ''_hash'' \<noteq> ''anonymous_id''"
  "f @ ''_encrypted'' \<noteq> ''anonymized_at''" "f @ ''_hash'' \<noteq> ''anonymized_at''"
  "f @ ''_encrypted'' \<noteq> ''privacy_level''" "f @ ''_hash'' \<noteq> ''privacy_level''"
  "f @ ''_encrypted'' \<noteq> ''student_id''" "f @ ''_hash'' \<noteq> ''student_id''"
  using suffix_key_rev [of f "''_encrypted''" "''anonymous_id''"]
        suffix_key_rev [of f "''_hash''" "''anonymous_id''"]
        suffix_key_rev [of f "''_encrypted''" "''anonymized_at''"]
        suffix_key_rev [of f "''_hash''" "''anonymized_at''"]
        suffix_key_rev [of f "''_encrypted''" "''privacy_level''"]
        suffix_key_rev [of f "''_hash''" "''privacy_level''"]
        suffix_key_rev [of f "''_encrypted''" "''student_id''"]
        suffix_key_rev [of f "''_hash''" "''student_id''"]
  by auto

lemma pii_fields_not_metadata:
  "f \<in> set pii_fields \<Longrightarrow>
     f \<noteq> ''anonymous_id'' \<and> f \<noteq> ''anonymized_at'' \<and> f \<noteq> ''privacy_level'' \<and> f \<noteq> ''student_id''"
  by (auto simp add: pii_fields_def)

lemma anonymize_student_unfold:
  assumes r: "anonymize_student env st s = (Inr a, s')" and st: "st < length (heap s)"
  shows "\<exists>s3 s4. a = length (heap s)
     \<and> length (heap s3) = Suc (length (heap s))
     \<and> (\<forall>k. map_of (heap s3 ! a) k =
           (if k = ''anonymous_id'' \<and> map_of (heap s ! st) ''student_id'' \<noteq> None
            then map_of (heap s3 ! a) ''anonymous_id''
            else map_option (mask_field_value env) (map_of (heap s ! st) k)))
     \<and> (\<forall>sid. map_of (heap s ! st) ''student_id'' = Some sid \<longrightarrow>
           (\<exists>b. str_encode (py_str env sid) = Some b \<and>
              map_of (heap s3 ! a) ''anonymous_id'' =
                Some (PStr (py ''anon_'' @ take 16 (sha256_hexdigest env b)))))
     \<and> student_pii_loop env a pii_fields s3 = (Inr (), s4)
     \<and> s' = setitem a ''privacy_level'' (PStr (py ''ferpa_compliant''))
              (setitem a ''anonymized_at'' (PStr (isoformat env (utcnow env (ticks s4))))
                 (s4\<lparr>ticks := Suc (ticks s4)\<rparr>))"
proof -
  define a0 where "a0 = length (heap s)"
  define s2 where "s2 = anonymize_record env a0 (s\<lparr>heap := heap s @ [heap s ! st]\<rparr>)"
  have h2: "heap s2 =
      heap s @ [map (\<lambda>(key, value). (key, mask_field_value env value)) (heap s ! st)]"
    by (simp add: s2_def a0_def)
  have st2: "heap s2 ! st = heap s ! st" using st by (simp add: h2 nth_append)
  have a2: "heap s2 ! a0 = map (\<lambda>(key, value). (key, mask_field_value env value)) (heap s ! st)"
    by (simp add: h2 a0_def)
  have m2: "map_of (heap s2 ! a0) k = map_option (mask_field_value env) (map_of (heap s ! st) k)"
    for k by (simp add: a2 map_of_map)
  define pre where "pre =
     (case map_of (heap s ! st) ''student_id'' of
        None \<Rightarrow> (Inr (), s2)
      | Some sid \<Rightarrow>
          (case generate_anonymous_id env (py_str env sid) s2 of
             (Inl e, s3) \<Rightarrow> (Inl e, s3)
           | (Inr anon, s3) \<Rightarrow> (Inr (), setitem a0 ''anonymous_id'' (PStr anon) s3)))"
  have r': "(case pre of
               (Inl e, s3) \<Rightarrow> (Inl e, s3)
             | (Inr u, s3) \<Rightarrow>
                 (case student_pii_loop env a0 pii_fields s3 of
                    (Inl e, s4) \<Rightarrow> (Inl e, s4)
                  | (Inr u', s4) \<Rightarrow>
                      (Inr a0,
                       setitem a0 ''privacy_level'' (PStr (py ''ferpa_compliant''))
                         (setitem a0 ''anonymized_at''
                            (PStr (isoformat env (utcnow env (ticks s4))))
                            (s4\<lparr>ticks := Suc (ticks s4)\<rparr>))))) = (Inr a, s')"
    using r st2 unfolding anonymize_student_def dict_copy_def Let_def pre_def s2_def a0_def
    by simp
  obtain s3 where p: "pre = (Inr (), s3)"
    using r' by (cases pre; cases "fst pre") auto
  obtain s4 where l: "student_pii_loop env a0 pii_fields s3 = (Inr (), s4)"
    and a: "a = a0"
    and s': "s' = setitem a0 ''privacy_level'' (PStr (py ''ferpa_compliant''))
                    (setitem a0 ''anonymized_at''
                       (PStr (isoformat env (utcnow env (ticks s4))))
                       (s4\<lparr>ticks := Suc (ticks s4)\<rparr>))"
    using r' p
    by (cases "student_pii_loop env a0 pii_fields s3";
        cases "fst (student_pii_loop env a0 pii_fields s3)") auto
  have k3: "length (heap s3) = Suc (length (heap s))
     \<and> (\<forall>k. map_of (heap s3 ! a0) k =
           (if k = ''anonymous_id'' \<and> map_of (heap s ! st) ''student_id'' \<noteq> None
            then map_of (heap s3 ! a0) ''anonymous_id''
            else map_option (mask_field_value env) (map_of (heap s ! st) k)))
     \<and> (\<forall>sid. map_of (heap s ! st) ''student_id'' = Some sid \<longrightarrow>
           (\<exists>b. str_encode (py_str env sid) = Some b \<and>
              map_of (heap s3 ! a0) ''anonymous_id'' =
                Some (PStr (py ''anon_'' @ take 16 (sha256_hexdigest env b)))))"
  proof (cases "map_of (heap s ! st) ''student_id''")
    case None
    then have "s3 = s2" using p by (simp add: pre_def)
    then show ?thesis using None m2 by (simp add: h2)
  next
    case (Some sid)
    obtain anon s3' where g: "generate_anonymous_id env (py_str env sid) s2 = (Inr anon, s3')"
      and s3: "s3 = setitem a0 ''anonymous_id'' (PStr anon) s3'"
      using p Some
      by (cases "generate_anonymous_id env (py_str env sid) s2";
          cases "fst (generate_anonymous_id env (py_str env sid) s2)")
         (auto simp add: pre_def)
    have h3: "heap s3' = heap s2" using generate_anonymous_id_result [OF g] by blast
    obtain b where b: "str_encode (py_str env sid) = Some b"
      "anon = py ''anon_'' @ take 16 (sha256_hexdigest env b)"
      using generate_anonymous_id_result [OF g] by blast
    have lt: "a0 < length (heap s3')" by (simp add: h3 h2 a0_def)
    have m3: "map_of (heap s3 ! a0) = (map_of (heap s2 ! a0))(''anonymous_id'' \<mapsto> PStr anon)"
      using map_of_setitem [OF lt, of "''anonymous_id''" "PStr anon"] by (simp add: s3 h3)
    have "length (heap s3) = Suc (length (heap s))" by (simp add: s3 h3 h2)
    then show ?thesis using Some b m2 by (simp add: m3)
  qed
  show ?thesis using k3 l a s' a0_def by blast
qed


lemma anonymize_student_content:
  assumes r: "anonymize_student env st s = (Inr a, s')" and st: "st < length (heap s)"
  shows "(\<forall>f\<in>set pii_fields. map_of (heap s' ! a) f = None)
   \<and> (\<forall>f\<in>set pii_fields. \<forall>v. map_of (heap s ! st) f = Some v \<longrightarrow>
         (\<exists>b n. str_encode (py_str env (mask_field_value env v)) = Some b \<and>
            map_of (heap s' ! a)
               (f @ (if f \<in> set sensitive_fields then ''_encrypted'' else ''_hash'')) =
              Some (PStr (if f \<in> set sensitive_fields
                          then (case fernet_encrypt env n b of
                                  Some t \<Rightarrow> b64encode env t | None \<Rightarrow> sha256_hexdigest env b)
                          else sha256_hexdigest env b))))
   \<and> (\<forall>k. k \<notin> set pii_fields \<longrightarrow>
          k \<notin> {''anonymous_id'', ''anonymized_at'', ''privacy_level''} \<longrightarrow>
          (\<forall>f\<in>set pii_fields. map_of (heap s ! st) f \<noteq> None \<longrightarrow>
              k \<noteq> f @ (if f \<in> set sensitive_fields then ''_encrypted'' else ''_hash'')) \<longrightarrow>
          map_of (heap s' ! a) k = map_option (mask_field_value env) (map_of (heap s ! st) k))
   \<and> (\<forall>sid. map_of (heap s ! st) ''student_id'' = Some sid \<longrightarrow>
         (\<exists>b. str_encode (py_str env sid) = Some b \<and>
            map_of (heap s' ! a) ''anonymous_id'' =
              Some (PStr (py ''anon_'' @ take 16 (sha256_hexdigest env b)))))"
proof -
  define repl where
    "repl = (\<lambda>f. f @ (if f \<in> set sensitive_fields then ''_encrypted'' else ''_hash''))"
  let ?m = "map_of (heap s ! st)"
  let ?m' = "map_of (heap s' ! a)"
  obtain s3 s4 where a: "a = length (heap s)"
    and len3: "length (heap s3) = Suc (length (heap s))"
    and m3: "\<And>k. map_of (heap s3 ! a) k =
           (if k = ''anonymous_id'' \<and> ?m ''student_id'' \<noteq> None
            then map_of (heap s3 ! a) ''anonymous_id''
            else map_option (mask_field_value env) (?m k))"
    and anon: "\<And>sid. ?m ''student_id'' = Some sid \<Longrightarrow>
           (\<exists>b. str_encode (py_str env sid) = Some b \<and>
              map_of (heap s3 ! a) ''anonymous_id'' =
                Some (PStr (py ''anon_'' @ take 16 (sha256_hexdigest env b))))"
    and l: "student_pii_loop env a pii_fields s3 = (Inr (), s4)"
    and s': "s' = setitem a ''privacy_level'' (PStr (py ''ferpa_compliant''))
              (setitem a ''anonymized_at'' (PStr (isoformat env (utcnow env (ticks s4))))
                 (s4\<lparr>ticks := Suc (ticks s4)\<rparr>))"
    using anonymize_student_unfold [OF r st] by blast
  let ?m3 = "map_of (heap s3 ! a)"
  let ?m4 = "map_of (heap s4 ! a)"
  have lt3: "a < length (heap s3)" using a len3 by simp
  have nc: "\<forall>f\<in>set pii_fields. repl f \<notin> set pii_fields"
    using pii_fields_no_clash by (simp add: repl_def)
  note c = student_pii_loop_content [OF repl_def l lt3 pii_fields_distinct nc]
  have c1: "\<And>f. f \<in> set pii_fields \<Longrightarrow> ?m4 f = None" using c by blast
  have c2: "\<And>f v. f \<in> set pii_fields \<Longrightarrow> ?m3 f = Some v \<Longrightarrow>
         (\<exists>b n. str_encode (py_str env v) = Some b \<and>
            ?m4 (repl f) =
              Some (PStr (if f \<in> set sensitive_fields
                          then (case fernet_encrypt env n b of
                                  Some t \<Rightarrow> b64encode env t | None \<Rightarrow> sha256_hexdigest env b)
                          else sha256_hexdigest env b)))"
    using c by blast
  have c3: "\<And>k. k \<notin> set pii_fields \<Longrightarrow>
          (\<forall>f\<in>set pii_fields. ?m3 f \<noteq> None \<longrightarrow> k \<noteq> repl f) \<Longrightarrow> ?m4 k = ?m3 k"
    using c by blast
  have len4: "a < length (heap s4)" using c lt3 by simp
  have m': "?m' = (?m4(''anonymized_at'' \<mapsto> PStr (isoformat env (utcnow env (ticks s4)))))
                    (''privacy_level'' \<mapsto> PStr (py ''ferpa_compliant''))"
    using len4 by (simp add: s' update_conv')
  have rf: "repl f \<noteq> ''anonymous_id'' \<and> repl f \<noteq> ''anonymized_at''
            \<and> repl f \<noteq> ''privacy_level''" for f
    using replacement_key_fresh [of f] by (simp add: repl_def)
  have pii3: "?m3 f = map_option (mask_field_value env) (?m f)" if "f \<in> set pii_fields" for f
    using m3 [of f] pii_fields_not_metadata [OF that] by simp
  have A: "\<forall>f\<in>set pii_fields. ?m' f = None"
    using c1 pii_fields_not_metadata by (simp add: m')
  have B: "\<forall>f\<in>set pii_fields. \<forall>v. ?m f = Some v \<longrightarrow>
         (\<exists>b n. str_encode (py_str env (mask_field_value env v)) = Some b \<and>
            ?m' (repl f) =
              Some (PStr (if f \<in> set sensitive_fields
                          then (case fernet_encrypt env n b of
                                  Some t \<Rightarrow> b64encode env t | None \<Rightarrow> sha256_hexdigest env b)
                          else sha256_hexdigest env b)))"
  proof (intro ballI allI impI)
    fix f v assume f: "f \<in> set pii_fields" and v: "?m f = Some v"
    have "?m3 f = Some (mask_field_value env v)" using pii3 [OF f] v by simp
    from c2 [OF f this] have "\<exists>b n. str_encode (py_str env (mask_field_value env v)) = Some b \<and>
            ?m4 (repl f) =
              Some (PStr (if f \<in> set sensitive_fields
                          then (case fernet_encrypt env n b of
                                  Some t \<Rightarrow> b64encode env t | None \<Rightarrow> sha256_hexdigest env b)
                          else sha256_hexdigest env b))" .
    moreover have "?m' (repl f) = ?m4 (repl f)" using rf [of f] by (simp add: m')
    ultimately show "\<exists>b n. str_encode (py_str env (mask_field_value env v)) = Some b \<and>
            ?m' (repl f) =
              Some (PStr (if f \<in> set sensitive_fields
                          then (case fernet_encrypt env n b of
                                  Some t \<Rightarrow> b64encode env t | None \<Rightarrow> sha256_hexdigest env b)
                          else sha256_hexdigest env b))" by simp
  qed
  have C: "\<forall>k. k \<notin> set pii_fields \<longrightarrow>
          k \<notin> {''anonymous_id'', ''anonymized_at'', ''privacy_level''} \<longrightarrow>
          (\<forall>f\<in>set pii_fields. ?m f \<noteq> None \<longrightarrow> k \<noteq> repl f) \<longrightarrow>
          ?m' k = map_option (mask_field_value env) (?m k)"
  proof (intro allI impI)
    fix k assume k: "k \<notin> set pii_fields"
      and k2: "k \<notin> {''anonymous_id'', ''anonymized_at'', ''privacy_level''}"
      and k3: "\<forall>f\<in>set pii_fields. ?m f \<noteq> None \<longrightarrow> k \<noteq> repl f"
    have "\<forall>f\<in>set pii_fields. ?m3 f \<noteq> None \<longrightarrow> k \<noteq> repl f"
      using k3 pii3 by auto
    then have "?m4 k = ?m3 k" using c3 [OF k] by simp
    moreover have "?m3 k = map_option (mask_field_value env) (?m k)" using m3 [of k] k2 by simp
    moreover have "?m' k = ?m4 k" using k2 by (simp add: m')
    ultimately show "?m' k = map_option (mask_field_value env) (?m k)" by simp
  qed
  have D: "\<forall>sid. ?m ''student_id'' = Some sid \<longrightarrow>
         (\<exists>b. str_encode (py_str env sid) = Some b \<and>
            ?m' ''anonymous_id'' =
              Some (PStr (py ''anon_'' @ take 16 (sha256_hexdigest env b))))"
  proof (intro allI impI)
    fix sid assume sid: "?m ''student_id'' = Some sid"
    have "''anonymous_id'' \<notin> set pii_fields" by (simp add: pii_fields_def)
    moreover have "\<forall>f\<in>set pii_fields. ?m3 f \<noteq> None \<longrightarrow> ''anonymous_id'' \<noteq> repl f"
      using rf by metis
    ultimately have "?m4 ''anonymous_id'' = ?m3 ''anonymous_id''" using c3 by simp
    moreover have "?m' ''anonymous_id'' = ?m4 ''anonymous_id''" by (simp add: m')
    ultimately show "\<exists>b. str_encode (py_str env sid) = Some b \<and>
            ?m' ''anonymous_id'' =
              Some (PStr (py ''anon_'' @ take 16 (sha256_hexdigest env b)))"
      using anon [OF sid] by simp
  qed
  show ?thesis using A B C D unfolding repl_def by blast
qed


text \<open>
  Every returned record is the result of one turn of the loop, run on the caller's record
  as it was before the call, and is not touched by the later turns.
\<close>

lemma student_loop_each:
  "student_loop env sts acc s = (Inr out, s') \<Longrightarrow> \<forall>st\<in>set sts. st < length (heap s) \<Longrightarrow>
   i < length sts \<Longrightarrow>
     \<exists>si si'. anonymize_student env (sts ! i) si = (Inr (out ! (length acc + i)), si')
        \<and> sts ! i < length (heap si)
        \<and> heap si ! (sts ! i) = heap s ! (sts ! i)
        \<and> heap s' ! (out ! (length acc + i)) = heap si' ! (out ! (length acc + i))"
proof (induction sts arbitrary: acc s i)
  case Nil
  then show ?case by simp
next
  case (Cons st sts)
  obtain r s1 where r: "anonymize_student env st s = (r, s1)"
    by (cases "anonymize_student env st s")
  obtain d where d: "heap s1 = heap s @ [d]"
    using heap_anonymize_student [of env st s] r by auto
  obtain a where ra: "r = Inr a" using Cons.prems(1) r by (cases r) auto
  have a: "a = length (heap s)" using anonymize_student_addr r ra by blast
  have l: "student_loop env sts (acc @ [a]) s1 = (Inr out, s')"
    using Cons.prems(1) r ra by simp
  have out: "out = (acc @ [a]) @ [length (heap s1) ..< length (heap s1) + length sts]"
    using student_loop_addrs [OF l] by simp
  have p: "prefix (heap s1) (heap s')"
    using student_loop_prefix [of s1 env sts "acc @ [a]"] l by simp
  have v: "\<forall>st\<in>set sts. st < length (heap s1)" using Cons.prems(2) d by auto
  show ?case
  proof (cases i)
    case 0
    have o: "out ! (length acc + 0) = a" by (simp add: out nth_append)
    have "heap s' ! a = heap s1 ! a" using prefix_nth [OF p, of a] a d by simp
    then show ?thesis using 0 r ra o Cons.prems(2) by auto
  next
    case (Suc j)
    then have j: "j < length sts" using Cons.prems(3) by simp
    obtain si si' where
      e: "anonymize_student env (sts ! j) si = (Inr (out ! (length (acc @ [a]) + j)), si')"
      and e2: "sts ! j < length (heap si)"
      and e3: "heap si ! (sts ! j) = heap s1 ! (sts ! j)"
      and e4: "heap s' ! (out ! (length (acc @ [a]) + j)) = heap si' ! (out ! (length (acc @ [a]) + j))"
      using Cons.IH [OF l v j] by blast
    have "sts ! j < length (heap s)" using Cons.prems(2) j by simp
    then have "heap s1 ! (sts ! j) = heap s ! (sts ! j)" by (simp add: d nth_append)
    then show ?thesis using Suc e e2 e3 e4 by auto
  qed
qed

lemma heap_anonymize_student_data:
  "anonymization_enabled self \<Longrightarrow>
     heap (snd (anonymize_student_data env self students s)) =
     heap (snd (student_loop env students [] s))"
  by (cases "student_loop env students [] s")
     (auto simp add: anonymize_student_data_def split: sum.splits)

lemma fst_anonymize_student_data:
  "anonymization_enabled self \<Longrightarrow>
     fst (anonymize_student_data env self students s) = fst (student_loop env students [] s)"
  by (cases "student_loop env students [] s")
     (auto simp add: anonymize_student_data_def split: sum.splits)

lemma anonymize_student_data_each:
  assumes "anonymization_enabled self" and "\<forall>st\<in>set students. st < length (heap s)"
    and "fst (anonymize_student_data env self students s) = Inr out"
    and "i < length students"
  shows "\<exists>si si'. anonymize_student env (students ! i) si = (Inr (out ! i), si')
        \<and> students ! i < length (heap si)
        \<and> heap si ! (students ! i) = heap s ! (students ! i)
        \<and> heap (snd (anonymize_student_data env self students s)) ! (out ! i) =
            heap si' ! (out ! i)"
proof -
  obtain s' where l: "student_loop env students [] s = (Inr out, s')"
    using assms(1,3) fst_anonymize_student_data [of self env students s]
    by (cases "student_loop env students [] s") auto
  have "heap (snd (anonymize_student_data env self students s)) = heap s'"
    using heap_anonymize_student_data [OF assms(1), of env students s] l by simp
  then show ?thesis using student_loop_each [OF l assms(2,4)] by simp
qed

subsection \<open>The example record\<close>

lemma example_masks:
  "mask_field_value example_env (PStr (py ''1001'')) = PStr (py ''1001'')"
  "mask_field_value example_env (PStr (py ''jo@x.com'')) = PStr (py ''**@x.com'')"
  "mask_field_value example_env (PStr (py ''Jo'')) = PStr (py ''Jo'')"
  "mask_field_value example_env (PStr (py ''old'')) = PStr (py ''old'')"
  by code_simp+

lemma example_encodings:
  "str_encode (py ''1001'') = Some (py ''1001'')"
  "str_encode (py ''**@x.com'') = Some (py ''**@x.com'')"
  "str_encode (py ''Jo'') = Some (py ''Jo'')"
  by (rule str_encode_ascii, simp add: py_def)+

lemma example_env_sel:
  "fernet_encrypt example_env = (\<lambda>n b. if n = 2 then None else Some (n # b))"
  "b64encode example_env = (\<lambda>b. b)"
  "sha256_hexdigest example_env = (\<lambda>b. replicate 64 (48 + length b mod 10))"
  by (simp_all add: example_env_def)

lemma example_student_result:
  "fst (anonymize_student_data example_env example_utils [0] example_state) = Inr [3]"
  by (simp add: anonymize_student_data_def example_utils_def anonymize_student_def
        dict_copy_def anonymize_record_def example_state_def example_heap_def
        pii_fields_def sensitive_fields_def setitem_def delitem_def Let_def
        example_masks example_encodings generate_anonymous_id_def encrypt_field_def
        hash_field_def example_env_sel)

lemma length_py [simp]: "length (py s) = length s"
  by (simp add: py_def)

lemma example_student_record:
  "heap (snd (anonymize_student_data example_env example_utils [0] example_state)) ! 3 =
     [(''student_id'', PStr (py ''1001'')), (''email_hash'', PStr (py ''old'')),
      (''anonymous_id'', PStr (py ''anon_'' @ replicate 16 52)),
      (''email_encrypted'', PStr (0 # py ''**@x.com'')),
      (''name_hash'', PStr (replicate 64 50)),
      (''anonymized_at'', PStr (isoformat example_env (utcnow example_env 1))),
      (''privacy_level'', PStr (py ''ferpa_compliant''))]"
  by (simp add: anonymize_student_data_def example_utils_def anonymize_student_def
        dict_copy_def anonymize_record_def example_state_def example_heap_def
        pii_fields_def sensitive_fields_def setitem_def delitem_def Let_def
        example_masks example_encodings generate_anonymous_id_def encrypt_field_def
        hash_field_def example_env_sel log_privacy_event_def log_msg_def)

lemma example_batch_raises:
  "fst (anonymize_student_data example_env example_utils [0, 1] example_state) =
     Inl UnicodeEncodeError"
  by (simp add: anonymize_student_data_def example_utils_def anonymize_student_def
        dict_copy_def anonymize_record_def example_state_def example_heap_def
        pii_fields_def sensitive_fields_def setitem_def delitem_def Let_def
        example_masks example_encodings generate_anonymous_id_def encrypt_field_def
        hash_field_def example_env_sel str_encode_surrogate nth_append)

section \<open>What \<open>anonymize_student_data\<close> does with the identifier\<close>

text \<open>
  Claim C2. With anonymization enabled, for a record that carries \<open>student_id\<close>, the
  record returned by \<open>anonymize_student_data\<close> carries \<open>anonymous_id\<close>, the marker
  \<open>anon_\<close> followed by the first 16 characters of the SHA-256 digest of the encoded
  \<open>str(student_id)\<close>; and it still carries \<open>student_id\<close> under its own name, holding
  what the masking pass of \<open>_anonymize_record\<close> makes of the caller's value: the raw
  value itself when it is not a string, or is a string in which none of the three patterns
  is found.
\<close>

theorem anonymize_student_data_keeps_student_id:
  assumes "anonymization_enabled self" and "\<forall>st\<in>set students. st < length (heap s)"
    and "fst (anonymize_student_data env self students s) = Inr out"
    and "i < length students"
    and "map_of (heap s ! (students ! i)) ''student_id'' = Some sid"
  shows "(\<exists>b. str_encode (py_str env sid) = Some b \<and>
            map_of (heap (snd (anonymize_student_data env self students s)) ! (out ! i))
               ''anonymous_id'' =
              Some (PStr (py ''anon_'' @ take 16 (sha256_hexdigest env b))))
     \<and> map_of (heap (snd (anonymize_student_data env self students s)) ! (out ! i))
          ''student_id'' = Some (mask_field_value env sid)
     \<and> ((\<forall>v. sid = PStr v \<longrightarrow>
             \<not> re_search_bounded env email_pattern v
             \<and> \<not> re_search_bounded env (phone_pattern env) v
             \<and> \<not> re_search_bounded env (ssn_pattern env) v) \<longrightarrow>
         map_of (heap (snd (anonymize_student_data env self students s)) ! (out ! i))
           ''student_id'' = Some sid)"
proof -
  let ?h = "heap (snd (anonymize_student_data env self students s))"
  obtain si si' where
    e: "anonymize_student env (students ! i) si = (Inr (out ! i), si')"
    and lt: "students ! i < length (heap si)"
    and same: "heap si ! (students ! i) = heap s ! (students ! i)"
    and res: "?h ! (out ! i) = heap si' ! (out ! i)"
    using anonymize_student_data_each [OF assms(1-4)] by blast
  note c = anonymize_student_content [OF e lt]
  have sid: "map_of (heap si ! (students ! i)) ''student_id'' = Some sid"
    using assms(5) same by simp
  have D: "\<exists>b. str_encode (py_str env sid) = Some b \<and>
            map_of (heap si' ! (out ! i)) ''anonymous_id'' =
              Some (PStr (py ''anon_'' @ take 16 (sha256_hexdigest env b)))"
    using c sid by blast
  have k1: "''student_id'' \<notin> set pii_fields" by (simp add: pii_fields_def)
  have k2: "''student_id'' \<notin> {''anonymous_id'', ''anonymized_at'', ''privacy_level''}" by simp
  have k3: "\<forall>f\<in>set pii_fields. map_of (heap si ! (students ! i)) f \<noteq> None \<longrightarrow>
      ''student_id'' \<noteq> f @ (if f \<in> set sensitive_fields then ''_encrypted'' else ''_hash'')"
    using replacement_key_fresh(7,8) [THEN not_sym] by simp
  have C: "\<And>k. k \<notin> set pii_fields \<Longrightarrow>
          k \<notin> {''anonymous_id'', ''anonymized_at'', ''privacy_level''} \<Longrightarrow>
          (\<forall>f\<in>set pii_fields. map_of (heap si ! (students ! i)) f \<noteq> None \<longrightarrow>
              k \<noteq> f @ (if f \<in> set sensitive_fields then ''_encrypted'' else ''_hash'')) \<Longrightarrow>
          map_of (heap si' ! (out ! i)) k =
            map_option (mask_field_value env) (map_of (heap si ! (students ! i)) k)"
    using c by blast
  have kept: "map_of (heap si' ! (out ! i)) ''student_id'' = Some (mask_field_value env sid)"
    using C [OF k1 k2 k3] sid by simp
  have raw: "mask_field_value env sid = sid"
    if "\<forall>v. sid = PStr v \<longrightarrow>
             \<not> re_search_bounded env email_pattern v
             \<and> \<not> re_search_bounded env (phone_pattern env) v
             \<and> \<not> re_search_bounded env (ssn_pattern env) v"
    using that by (simp add: mask_field_value_def split: pyval.splits)
  show ?thesis using D res kept raw by simp
qed

lemma example_student_id: "map_of (heap example_state ! 0) ''student_id'' = Some (PStr (py ''1001''))"
  by (simp add: example_state_def example_heap_def)

lemma example_no_pattern:
  "re_search_bounded example_env email_pattern (py ''1001'') = False"
  "re_search_bounded example_env (phone_pattern example_env) (py ''1001'') = False"
  "re_search_bounded example_env (ssn_pattern example_env) (py ''1001'') = False"
  by code_simp+

theorem anonymize_student_data_keeps_student_id_witness:
  "anonymization_enabled example_utils
   \<and> 0 < length (heap example_state)
   \<and> fst (anonymize_student_data example_env example_utils [0] example_state) = Inr [3]
   \<and> map_of (heap example_state ! ([0] ! 0)) ''student_id'' = Some (PStr (py ''1001''))
   \<and> re_search_bounded example_env email_pattern (py ''1001'') = False
   \<and> re_search_bounded example_env (phone_pattern example_env) (py ''1001'') = False
   \<and> re_search_bounded example_env (ssn_pattern example_env) (py ''1001'') = False
   \<and> map_of (heap (snd (anonymize_student_data example_env example_utils [0] example_state))
               ! ([3] ! 0)) ''anonymous_id'' = Some (PStr (py ''anon_'' @ replicate 16 52))
   \<and> map_of (heap (snd (anonymize_student_data example_env example_utils [0] example_state))
               ! ([3] ! 0)) ''student_id'' = Some (PStr (py ''1001''))"
proof -
  have h: "anonymization_enabled example_utils"
    "\<forall>st\<in>set [0]. st < length (heap example_state)"
    "fst (anonymize_student_data example_env example_utils [0] example_state) = Inr [3]"
    "(0::nat) < length [0::nat]"
    "map_of (heap example_state ! ([0] ! 0)) ''student_id'' = Some (PStr (py ''1001''))"
    using example_student_result example_student_id
    by (simp_all add: example_utils_def example_state_def example_heap_def)
  show ?thesis
    using h anonymize_student_data_keeps_student_id [OF h]
    by (simp add: example_masks example_encodings example_env_sel example_no_pattern)
qed

theorem student_id_kept_counterexample:
  "fst (anonymize_student_data example_env example_utils [0] example_state) = Inr [3]
   \<and> map_of (heap example_state ! 0) ''student_id'' = Some (PStr (py ''1001''))
   \<and> map_of (heap (snd (anonymize_student_data example_env example_utils [0] example_state)) ! 3)
        ''student_id'' = Some (PStr (py ''1001''))"
  using example_student_result example_student_id
  by (simp add: example_student_record)

section \<open>What \<open>anonymize_student_data\<close> does with the PII fields\<close>

lemma other_key_not_replacement:
  "f @ ''_hash'' \<noteq> g @ (if g \<in> set sensitive_fields then ''_encrypted'' else ''_hash'')
     \<or> (f = g \<and> g \<notin> set sensitive_fields)"
  "f @ ''_encrypted'' \<noteq> g @ (if g \<in> set sensitive_fields then ''_encrypted'' else ''_hash'')
     \<or> (f = g \<and> g \<in> set sensitive_fields)"
  using suffix_keys_differ [of g f] suffix_keys_differ [of f g] by auto

text \<open>
  Claim C3. With anonymization enabled, for every field of the PII list present on an input
  record, the record returned by \<open>anonymize_student_data\<close> does not have the field,
  and has the replacement key: \<open><field>_encrypted\<close> for a sensitive field, holding the
  encoded ciphertext of the masked value or, when the cipher raised, its SHA-256 digest;
  \<open><field>_hash\<close> otherwise, holding the SHA-256 digest of the masked value. The key
  with the other suffix is not written and not removed: the returned record has it exactly
  when the input record had it, with the value the masking pass gives it.
\<close>

theorem anonymize_student_data_replaces_pii_fields:
  assumes "anonymization_enabled self" and "\<forall>st\<in>set students. st < length (heap s)"
    and "fst (anonymize_student_data env self students s) = Inr out"
    and "i < length students"
    and "f \<in> set pii_fields"
    and "map_of (heap s ! (students ! i)) f = Some v"
  shows "map_of (heap (snd (anonymize_student_data env self students s)) ! (out ! i)) f = None
     \<and> (\<exists>b n. str_encode (py_str env (mask_field_value env v)) = Some b \<and>
          (if f \<in> set sensitive_fields
           then map_of (heap (snd (anonymize_student_data env self students s)) ! (out ! i))
                  (f @ ''_encrypted'') =
                  Some (PStr (case fernet_encrypt env n b of
                                Some t \<Rightarrow> b64encode env t | None \<Rightarrow> sha256_hexdigest env b))
              \<and> map_of (heap (snd (anonymize_student_data env self students s)) ! (out ! i))
                  (f @ ''_hash'') =
                  map_option (mask_field_value env)
                    (map_of (heap s ! (students ! i)) (f @ ''_hash''))
           else map_of (heap (snd (anonymize_student_data env self students s)) ! (out ! i))
                  (f @ ''_hash'') = Some (PStr (sha256_hexdigest env b))
              \<and> map_of (heap (snd (anonymize_student_data env self students s)) ! (out ! i))
                  (f @ ''_encrypted'') =
                  map_option (mask_field_value env)
                    (map_of (heap s ! (students ! i)) (f @ ''_encrypted''))))"
proof -
  let ?h = "heap (snd (anonymize_student_data env self students s))"
  obtain si si' where
    e: "anonymize_student env (students ! i) si = (Inr (out ! i), si')"
    and lt: "students ! i < length (heap si)"
    and same: "heap si ! (students ! i) = heap s ! (students ! i)"
    and res: "?h ! (out ! i) = heap si' ! (out ! i)"
    using anonymize_student_data_each [OF assms(1-4)] by blast
  let ?m = "map_of (heap s ! (students ! i))"
  let ?m' = "map_of (?h ! (out ! i))"
  note c = anonymize_student_content [OF e lt]
  have A: "?m' f = None" using c assms(5) res by simp
  have B: "\<exists>b n. str_encode (py_str env (mask_field_value env v)) = Some b \<and>
            ?m' (f @ (if f \<in> set sensitive_fields then ''_encrypted'' else ''_hash'')) =
              Some (PStr (if f \<in> set sensitive_fields
                          then (case fernet_encrypt env n b of
                                  Some t \<Rightarrow> b64encode env t | None \<Rightarrow> sha256_hexdigest env b)
                          else sha256_hexdigest env b))"
    using c assms(5,6) res same by simp
  have C: "\<And>k. k \<notin> set pii_fields \<Longrightarrow>
          k \<notin> {''anonymous_id'', ''anonymized_at'', ''privacy_level''} \<Longrightarrow>
          (\<forall>g\<in>set pii_fields. ?m g \<noteq> None \<longrightarrow>
              k \<noteq> g @ (if g \<in> set sensitive_fields then ''_encrypted'' else ''_hash'')) \<Longrightarrow>
          ?m' k = map_option (mask_field_value env) (?m k)"
    using c res same by simp
  show ?thesis
  proof (cases "f \<in> set sensitive_fields")
    case True
    let ?k = "f @ ''_hash''"
    have k1: "?k \<notin> set pii_fields" using pii_fields_no_clash [OF assms(5)] by simp
    have k2: "?k \<notin> {''anonymous_id'', ''anonymized_at'', ''privacy_level''}"
      using replacement_key_fresh [of f] by simp
    have k3: "\<forall>g\<in>set pii_fields. ?m g \<noteq> None \<longrightarrow>
              ?k \<noteq> g @ (if g \<in> set sensitive_fields then ''_encrypted'' else ''_hash'')"
      using other_key_not_replacement(1) [of f] True by blast
    have "?m' ?k = map_option (mask_field_value env) (?m ?k)" using C [OF k1 k2 k3] .
    then show ?thesis using A B True by simp
  next
    case False
    let ?k = "f @ ''_encrypted''"
    have k1: "?k \<notin> set pii_fields" using pii_fields_no_clash [OF assms(5)] by simp
    have k2: "?k \<notin> {''anonymous_id'', ''anonymized_at'', ''privacy_level''}"
      using replacement_key_fresh [of f] by simp
    have k3: "\<forall>g\<in>set pii_fields. ?m g \<noteq> None \<longrightarrow>
              ?k \<noteq> g @ (if g \<in> set sensitive_fields then ''_encrypted'' else ''_hash'')"
      using other_key_not_replacement(2) [of f] False by blast
    have "?m' ?k = map_option (mask_field_value env) (?m ?k)" using C [OF k1 k2 k3] .
    then show ?thesis using A B False by simp
  qed
qed

lemma example_email: "map_of (heap example_state ! 0) ''email'' = Some (PStr (py ''jo@x.com''))"
  by (simp add: example_state_def example_heap_def)

theorem anonymize_student_data_replaces_pii_fields_witness:
  "anonymization_enabled example_utils
   \<and> 0 < length (heap example_state)
   \<and> fst (anonymize_student_data example_env example_utils [0] example_state) = Inr [3]
   \<and> ''email'' \<in> set pii_fields \<and> ''email'' \<in> set sensitive_fields
   \<and> map_of (heap example_state ! ([0] ! 0)) ''email'' = Some (PStr (py ''jo@x.com''))
   \<and> map_of (heap (snd (anonymize_student_data example_env example_utils [0] example_state))
               ! ([3] ! 0)) ''email'' = None
   \<and> map_of (heap (snd (anonymize_student_data example_env example_utils [0] example_state))
               ! ([3] ! 0)) (''email'' @ ''_encrypted'') = Some (PStr (0 # py ''**@x.com''))
   \<and> map_of (heap (snd (anonymize_student_data example_env example_utils [0] example_state))
               ! ([3] ! 0)) (''email'' @ ''_hash'') = Some (PStr (py ''old''))"
proof -
  have h: "anonymization_enabled example_utils"
    "\<forall>st\<in>set [0]. st < length (heap example_state)"
    "fst (anonymize_student_data example_env example_utils [0] example_state) = Inr [3]"
    "(0::nat) < length [0::nat]"
    "''email'' \<in> set pii_fields"
    "map_of (heap example_state ! ([0] ! 0)) ''email'' = Some (PStr (py ''jo@x.com''))"
    using example_student_result example_email
    by (simp_all add: example_utils_def example_state_def example_heap_def pii_fields_def)
  have sens: "''email'' \<in> set sensitive_fields" by (simp add: sensitive_fields_def)
  show ?thesis
    using h sens anonymize_student_data_replaces_pii_fields [OF h]
    by (simp add: example_student_record)
qed

text \<open>
  The record of the example has \<open>email\<close> and, from an earlier export, \<open>email_hash\<close>:
  the returned record has both \<open>email_encrypted\<close> and \<open>email_hash\<close>.
\<close>

theorem both_suffixes_counterexample:
  "fst (anonymize_student_data example_env example_utils [0] example_state) = Inr [3]
   \<and> map_of (heap example_state ! 0) ''email'' = Some (PStr (py ''jo@x.com''))
   \<and> map_of (heap (snd (anonymize_student_data example_env example_utils [0] example_state)) ! 3)
        ''email_encrypted'' = Some (PStr (0 # py ''**@x.com''))
   \<and> map_of (heap (snd (anonymize_student_data example_env example_utils [0] example_state)) ! 3)
        ''email_hash'' = Some (PStr (py ''old''))"
  using example_student_result example_email
  by (simp add: example_student_record)

section \<open>Failure of \<open>anonymize_student_data\<close>\<close>

lemma generate_anonymous_id_error:
  "generate_anonymous_id env x s = (Inl e, s1) \<Longrightarrow> e = UnicodeEncodeError"
  by (auto simp add: generate_anonymous_id_def Let_def split: option.splits)

lemma hash_field_error: "hash_field env x s = (Inl e, s1) \<Longrightarrow> e = UnicodeEncodeError"
  by (auto simp add: hash_field_def Let_def split: option.splits)

lemma encrypt_field_error: "encrypt_field env x s = (Inl e, s1) \<Longrightarrow> e = UnicodeEncodeError"
  by (auto simp add: encrypt_field_def hash_field_def Let_def split: option.splits)

lemma student_pii_loop_error:
  "student_pii_loop env a fs s = (Inl e, s') \<Longrightarrow> e = UnicodeEncodeError"
proof (induction fs arbitrary: s)
  case Nil
  then show ?case by simp
next
  case (Cons f fs)
  show ?case
  proof (cases "map_of (heap s ! a) f")
    case None
    then show ?thesis using Cons by simp
  next
    case (Some v)
    show ?thesis
    proof (cases "f \<in> set sensitive_fields")
      case True
      obtain r s1 where r: "encrypt_field env (py_str env v) s = (r, s1)"
        by (cases "encrypt_field env (py_str env v) s")
      show ?thesis
      proof (cases r)
        case (Inl e')
        then show ?thesis using Cons.prems Some True r encrypt_field_error [of env _ s e' s1]
          by simp
      next
        case (Inr c)
        then show ?thesis using Cons.prems Some True r Cons.IH by simp
      qed
    next
      case False
      obtain r s1 where r: "hash_field env (py_str env v) s = (r, s1)"
        by (cases "hash_field env (py_str env v) s")
      show ?thesis
      proof (cases r)
        case (Inl e')
        then show ?thesis using Cons.prems Some False r hash_field_error [of env _ s e' s1]
          by simp
      next
        case (Inr c)
        then show ?thesis using Cons.prems Some False r Cons.IH by simp
      qed
    qed
  qed
qed

lemma anonymize_student_error:
  "anonymize_student env st s = (Inl e, s') \<Longrightarrow> e = UnicodeEncodeError"
  by (auto simp add: anonymize_student_def dict_copy_def Let_def
           dest: generate_anonymous_id_error student_pii_loop_error
           split: option.splits prod.splits sum.splits)

lemma student_loop_error:
  "student_loop env sts acc s = (Inl e, s') \<Longrightarrow> e = UnicodeEncodeError"
proof (induction sts arbitrary: acc s)
  case Nil
  then show ?case by simp
next
  case (Cons st sts)
  obtain r s1 where r: "anonymize_student env st s = (r, s1)"
    by (cases "anonymize_student env st s")
  show ?case
  proof (cases r)
    case (Inl e')
    then show ?thesis using Cons.prems r anonymize_student_error [of env st s e' s1] by simp
  next
    case (Inr a)
    then show ?thesis using Cons.prems r Cons.IH by simp
  qed
qed

lemma anonymize_student_data_error:
  "anonymization_enabled self \<Longrightarrow> fst (anonymize_student_data env self students s) = Inl e \<Longrightarrow>
     e = UnicodeEncodeError"
  using student_loop_error [of env students "[]" s e]
  by (cases "student_loop env students [] s")
     (auto simp add: anonymize_student_data_def split: sum.splits)

lemma anonymize_student_data_raise_logged:
  "anonymization_enabled self \<Longrightarrow> fst (anonymize_student_data env self students s) = Inl e \<Longrightarrow>
     last (logged (snd (anonymize_student_data env self students s))) =
       (ERROR, ''Student data anonymization failed'', [ArgErr e])"
  by (cases "student_loop env students [] s")
     (auto simp add: anonymize_student_data_def log_msg_def split: sum.splits)

lemma anonymize_student_data_returns_encodable:
  assumes "anonymization_enabled self" and "\<forall>st\<in>set students. st < length (heap s)"
    and "fst (anonymize_student_data env self students s) = Inr out"
    and "st \<in> set students"
  shows "(\<forall>sid. map_of (heap s ! st) ''student_id'' = Some sid \<longrightarrow>
            str_encode (py_str env sid) \<noteq> None)
     \<and> (\<forall>f\<in>set pii_fields. \<forall>v. map_of (heap s ! st) f = Some v \<longrightarrow>
            str_encode (py_str env (mask_field_value env v)) \<noteq> None)"
proof -
  obtain i where i: "i < length students" "students ! i = st"
    using assms(4) by (auto simp add: in_set_conv_nth)
  obtain si si' where
    e: "anonymize_student env (students ! i) si = (Inr (out ! i), si')"
    and lt: "students ! i < length (heap si)"
    and same: "heap si ! (students ! i) = heap s ! (students ! i)"
    using anonymize_student_data_each [OF assms(1-3) i(1)] by blast
  note c = anonymize_student_content [OF e lt]
  have D: "\<And>sid. map_of (heap s ! st) ''student_id'' = Some sid \<Longrightarrow>
             \<exists>b. str_encode (py_str env sid) = Some b"
    using c same i(2) by fastforce
  have B: "\<And>f v. f \<in> set pii_fields \<Longrightarrow> map_of (heap s ! st) f = Some v \<Longrightarrow>
             \<exists>b. str_encode (py_str env (mask_field_value env v)) = Some b"
  proof -
    fix f v assume f: "f \<in> set pii_fields" and v: "map_of (heap s ! st) f = Some v"
    have "\<forall>f\<in>set pii_fields. \<forall>v. map_of (heap si ! (students ! i)) f = Some v \<longrightarrow>
         (\<exists>b n. str_encode (py_str env (mask_field_value env v)) = Some b \<and>
            map_of (heap si' ! (out ! i))
               (f @ (if f \<in> set sensitive_fields then ''_encrypted'' else ''_hash'')) =
              Some (PStr (if f \<in> set sensitive_fields
                          then (case fernet_encrypt env n b of
                                  Some t \<Rightarrow> b64encode env t | None \<Rightarrow> sha256_hexdigest env b)
                          else sha256_hexdigest env b)))"
      using c by blast
    then show "\<exists>b. str_encode (py_str env (mask_field_value env v)) = Some b"
      using f v same i(2) by fastforce
  qed
  show ?thesis using D B by fastforce
qed

lemma encrypt_field_cipher_failure:
  "str_encode value = Some b \<Longrightarrow> fernet_encrypt env (ticks t) b = None \<Longrightarrow>
     fst (encrypt_field env value t) = Inr (sha256_hexdigest env b)
     \<and> logged (snd (encrypt_field env value t)) =
         logged t @ [(ERROR, ''Field encryption failed'', [ArgErr CipherError])]"
  by (simp add: encrypt_field_def hash_field_def log_msg_def)

text \<open>
  Claim C1. With anonymization enabled, \<open>anonymize_student_data\<close> never leaves a record
  out: it has one handler, around the whole loop, which logs and raises again.
  When the call returns, it returns one record for each input record. When the
  \<open>student_id\<close> of a record of the batch, or the masked value of a PII field present on
  it, cannot be encoded, the whole call raises \<open>UnicodeEncodeError\<close> and returns no
  record. Whenever the call raises, the last entry it logged is the error
  \<open>Student data anonymization failed\<close> with the error raised. A failure of the cipher on
  a value that can be encoded does not raise: \<open>_encrypt_field\<close> logs the error
  \<open>Field encryption failed\<close> and returns the SHA-256 digest of the value.
\<close>

theorem anonymize_student_data_all_or_nothing:
  assumes "anonymization_enabled self" and "\<forall>st\<in>set students. st < length (heap s)"
  shows "(\<forall>out. fst (anonymize_student_data env self students s) = Inr out \<longrightarrow>
            length out = length students)
   \<and> ((\<exists>st\<in>set students.
          (\<exists>sid. map_of (heap s ! st) ''student_id'' = Some sid
                 \<and> str_encode (py_str env sid) = None)
          \<or> (\<exists>f\<in>set pii_fields. \<exists>v. map_of (heap s ! st) f = Some v
                 \<and> str_encode (py_str env (mask_field_value env v)) = None)) \<longrightarrow>
       fst (anonymize_student_data env self students s) = Inl UnicodeEncodeError)
   \<and> (\<forall>e. fst (anonymize_student_data env self students s) = Inl e \<longrightarrow>
          last (logged (snd (anonymize_student_data env self students s))) =
            (ERROR, ''Student data anonymization failed'', [ArgErr e]))
   \<and> (\<forall>value b t. str_encode value = Some b \<and> fernet_encrypt env (ticks t) b = None \<longrightarrow>
          fst (encrypt_field env value t) = Inr (sha256_hexdigest env b)
          \<and> logged (snd (encrypt_field env value t)) =
              logged t @ [(ERROR, ''Field encryption failed'', [ArgErr CipherError])])"
proof -
  have p1: "\<forall>out. fst (anonymize_student_data env self students s) = Inr out \<longrightarrow>
            length out = length students"
  proof (intro allI impI)
    fix out assume o: "fst (anonymize_student_data env self students s) = Inr out"
    obtain s' where l: "student_loop env students [] s = (Inr out, s')"
      using assms(1) o fst_anonymize_student_data [of self env students s]
      by (cases "student_loop env students [] s") auto
    show "length out = length students" using student_loop_addrs [OF l] by simp
  qed
  have p2: "fst (anonymize_student_data env self students s) = Inl UnicodeEncodeError"
    if bad: "\<exists>st\<in>set students.
          (\<exists>sid. map_of (heap s ! st) ''student_id'' = Some sid
                 \<and> str_encode (py_str env sid) = None)
          \<or> (\<exists>f\<in>set pii_fields. \<exists>v. map_of (heap s ! st) f = Some v
                 \<and> str_encode (py_str env (mask_field_value env v)) = None)"
  proof (cases "fst (anonymize_student_data env self students s)")
    case (Inl e)
    then show ?thesis using anonymize_student_data_error [OF assms(1) Inl] by simp
  next
    case (Inr out)
    obtain st where st: "st \<in> set students"
      and b: "(\<exists>sid. map_of (heap s ! st) ''student_id'' = Some sid
                 \<and> str_encode (py_str env sid) = None)
          \<or> (\<exists>f\<in>set pii_fields. \<exists>v. map_of (heap s ! st) f = Some v
                 \<and> str_encode (py_str env (mask_field_value env v)) = None)"
      using bad by blast
    have False using anonymize_student_data_returns_encodable [OF assms Inr st] b by blast
    then show ?thesis ..
  qed
  have p3: "\<forall>e. fst (anonymize_student_data env self students s) = Inl e \<longrightarrow>
          last (logged (snd (anonymize_student_data env self students s))) =
            (ERROR, ''Student data anonymization failed'', [ArgErr e])"
    using anonymize_student_data_raise_logged [OF assms(1)] by blast
  have p4: "\<forall>value b t. str_encode value = Some b \<and> fernet_encrypt env (ticks t) b = None \<longrightarrow>
          fst (encrypt_field env value t) = Inr (sha256_hexdigest env b)
          \<and> logged (snd (encrypt_field env value t)) =
              logged t @ [(ERROR, ''Field encryption failed'', [ArgErr CipherError])]"
    using encrypt_field_cipher_failure by blast
  show ?thesis using p1 p2 p3 p4 by blast
qed

lemma example_bad_student_id:
  "map_of (heap example_state ! 1) ''student_id'' = Some (PStr [55296])"
  by (simp add: example_state_def example_heap_def)

theorem anonymize_student_data_all_or_nothing_witness:
  "anonymization_enabled example_utils
   \<and> 0 < length (heap example_state) \<and> 1 < length (heap example_state)
   \<and> map_of (heap example_state ! 1) ''student_id'' = Some (PStr [55296])
   \<and> str_encode (py_str example_env (PStr [55296])) = None
   \<and> fst (anonymize_student_data example_env example_utils [0, 1] example_state) =
        Inl UnicodeEncodeError
   \<and> last (logged (snd (anonymize_student_data example_env example_utils [0, 1] example_state)))
        = (ERROR, ''Student data anonymization failed'', [ArgErr UnicodeEncodeError])
   \<and> fst (anonymize_student_data example_env example_utils [0] example_state) = Inr [3]
   \<and> length [3::nat] = length [0::nat]
   \<and> str_encode (py ''Jo'') = Some (py ''Jo'')
   \<and> fernet_encrypt example_env 2 (py ''Jo'') = None
   \<and> fst (encrypt_field example_env (py ''Jo'') (example_state\<lparr>ticks := 2\<rparr>)) =
        Inr (replicate 64 50)
   \<and> logged (snd (encrypt_field example_env (py ''Jo'') (example_state\<lparr>ticks := 2\<rparr>))) =
        [(ERROR, ''Field encryption failed'', [ArgErr CipherError])]"
proof -
  have h: "anonymization_enabled example_utils"
    "\<forall>st\<in>set [0, 1]. st < length (heap example_state)"
    by (simp_all add: example_utils_def example_state_def example_heap_def)
  have bad: "\<exists>st\<in>set [0, 1::nat].
          (\<exists>sid. map_of (heap example_state ! st) ''student_id'' = Some sid
                 \<and> str_encode (py_str example_env sid) = None)
          \<or> (\<exists>f\<in>set pii_fields. \<exists>v. map_of (heap example_state ! st) f = Some v
                 \<and> str_encode (py_str example_env (mask_field_value example_env v)) = None)"
    using example_bad_student_id str_encode_surrogate by simp
  have len: "0 < length (heap example_state)" "1 < length (heap example_state)"
    by (simp_all add: example_state_def example_heap_def)
  note t = anonymize_student_data_all_or_nothing [OF h, of example_env]
  have r: "fst (anonymize_student_data example_env example_utils [0, 1] example_state) =
      Inl UnicodeEncodeError"
    using t bad by blast
  have l: "last (logged (snd (anonymize_student_data example_env example_utils [0, 1]
                              example_state))) =
            (ERROR, ''Student data anonymization failed'', [ArgErr UnicodeEncodeError])"
    using t r by blast
  have c: "fst (encrypt_field example_env (py ''Jo'') (example_state\<lparr>ticks := 2\<rparr>)) =
             Inr (sha256_hexdigest example_env (py ''Jo''))
      \<and> logged (snd (encrypt_field example_env (py ''Jo'') (example_state\<lparr>ticks := 2\<rparr>))) =
          logged (example_state\<lparr>ticks := 2\<rparr>)
            @ [(ERROR, ''Field encryption failed'', [ArgErr CipherError])]"
    using t example_encodings(3) by (simp add: example_env_sel)
  show ?thesis
    using h(1) len r l c example_bad_student_id str_encode_surrogate
      example_student_result example_encodings(3)
    by (simp add: example_env_sel example_state_def)
qed

text \<open>
  The first record of the example is anonymized when it is alone; together with a record
  whose \<open>student_id\<close> is a lone surrogate the call raises and returns no record.
\<close>

theorem batch_aborted_counterexample:
  "fst (anonymize_student_data example_env example_utils [0] example_state) = Inr [3]
   \<and> map_of (heap example_state ! 1) ''student_id'' = Some (PStr [55296])
   \<and> fst (anonymize_student_data example_env example_utils [0, 1] example_state) =
        Inl UnicodeEncodeError"
  using example_student_result example_bad_student_id example_batch_raises by simp

section \<open>Running \<open>store_data\<close> on the examples\<close>

lemma example_valid_name: "valid_collection_name ''canvas_students''"
  by code_simp

lemma py_inj [simp]: "(py s = py t) = (s = t)"
  by (simp add: py_def inj_map_eq_map inj_on_def)

lemmas example_store_defs =
  store_data_def replace_one_def Let_def example_db_def example_doc_a_def example_doc_b_def
  example_doc_a2_def violates_unique_def dup_id_def field_value_def bson_doc_def
  log_data_operation_def insert_one_def with_id_def mlog_def example_valid_name




section \<open>How \<open>store_data\<close> counts an upsert\<close>












section \<open>The audit trail of \<open>store_data\<close>\<close>

text \<open>
  What a write to another collection leaves alone: the server's state, the indexes, the
  clock and the audit log; generated identifiers only grow.
\<close>

lemma insert_one_frame:
  "insert_one cname doc db = (r, doc', db') \<Longrightarrow> cname \<noteq> ''audit_logs'' \<Longrightarrow>
     available db' = available db \<and> unique_indexes db' = unique_indexes db
     \<and> next_oid db \<le> next_oid db' \<and> clock db' = clock db
     \<and> collections db' ''audit_logs'' = collections db ''audit_logs''"
  by (auto simp add: insert_one_def with_id_def split: option.splits if_splits)

lemma replace_one_frame:
  "replace_one cname key value doc db = (r, db') \<Longrightarrow> cname \<noteq> ''audit_logs'' \<Longrightarrow>
     available db' = available db \<and> unique_indexes db' = unique_indexes db
     \<and> next_oid db \<le> next_oid db' \<and> clock db' = clock db
     \<and> collections db' ''audit_logs'' = collections db ''audit_logs''"
  by (auto simp add: replace_one_def Let_def split: option.splits if_splits)

lemma mlog_frame [simp]:
  "available (mlog lv msg args db) = available db"
  "unique_indexes (mlog lv msg args db) = unique_indexes db"
  "next_oid (mlog lv msg args db) = next_oid db"
  "clock (mlog lv msg args db) = clock db"
  "collections (mlog lv msg args db) = collections db"
  by (simp_all add: mlog_def)

lemma upsert_loop_frame:
  "upsert_loop cname key data c db = (c', db') \<Longrightarrow> cname \<noteq> ''audit_logs'' \<Longrightarrow>
     available db' = available db \<and> unique_indexes db' = unique_indexes db
     \<and> next_oid db \<le> next_oid db' \<and> clock db' = clock db
     \<and> collections db' ''audit_logs'' = collections db ''audit_logs''"
proof (induction data arbitrary: c db)
  case Nil
  then show ?case by simp
next
  case (Cons document rest)
  show ?case
  proof (cases "map_of document key")
    case None
    obtain r doc' db1 where i: "insert_one cname document db = (r, doc', db1)"
      by (cases "insert_one cname document db")
    note f = insert_one_frame [OF i Cons.prems(2)]
    show ?thesis
    proof (cases r)
      case (Inl e)
      then have "upsert_loop cname key rest (c\<lparr>failed := failed c + 1\<rparr>)
                   (mlog ERROR ''Failed to upsert document'' [ArgErr e] db1) = (c', db')"
        using Cons.prems(1) None i by simp
      from Cons.IH [OF this Cons.prems(2)] show ?thesis using f by simp
    next
      case (Inr u)
      then have "upsert_loop cname key rest (c\<lparr>inserted := inserted c + 1\<rparr>) db1 = (c', db')"
        using Cons.prems(1) None i by simp
      from Cons.IH [OF this Cons.prems(2)] show ?thesis using f by simp
    qed
  next
    case (Some v)
    obtain r db1 where i: "replace_one cname key v document db = (r, db1)"
      by (cases "replace_one cname key v document db")
    note f = replace_one_frame [OF i Cons.prems(2)]
    show ?thesis
    proof (cases r)
      case (Inl e)
      then have "upsert_loop cname key rest (c\<lparr>failed := failed c + 1\<rparr>)
                   (mlog ERROR ''Failed to upsert document'' [ArgErr e] db1) = (c', db')"
        using Cons.prems(1) Some i by simp
      from Cons.IH [OF this Cons.prems(2)] show ?thesis using f by simp
    next
      case (Inr res)
      then obtain c1 where "upsert_loop cname key rest c1 db1 = (c', db')"
        using Cons.prems(1) Some i by simp
      from Cons.IH [OF this Cons.prems(2)] show ?thesis using f by simp
    qed
  qed
qed

lemma insert_loop_frame:
  "insert_loop cname data c db = (c', db') \<Longrightarrow> cname \<noteq> ''audit_logs'' \<Longrightarrow>
     available db' = available db \<and> unique_indexes db' = unique_indexes db
     \<and> next_oid db \<le> next_oid db' \<and> clock db' = clock db
     \<and> collections db' ''audit_logs'' = collections db ''audit_logs''"
proof (induction data arbitrary: c db)
  case Nil
  then show ?case by simp
next
  case (Cons document rest)
  obtain r doc' db1 where i: "insert_one cname document db = (r, doc', db1)"
    by (cases "insert_one cname document db")
  note f = insert_one_frame [OF i Cons.prems(2)]
  obtain c1 db2 where l: "insert_loop cname rest c1 db2 = (c', db')"
    and g: "available db2 = available db1" "unique_indexes db2 = unique_indexes db1"
      "next_oid db2 = next_oid db1" "clock db2 = clock db1" "collections db2 = collections db1"
    using Cons.prems(1) i by (cases r) (auto split: if_splits)
  from Cons.IH [OF l Cons.prems(2)] show ?case using f g by simp
qed

lemma assign_ids_frame:
  "assign_ids data db = (data', db') \<Longrightarrow>
     available db' = available db \<and> unique_indexes db' = unique_indexes db
     \<and> next_oid db \<le> next_oid db' \<and> clock db' = clock db
     \<and> collections db' = collections db \<and> length data' = length data"
proof (induction data arbitrary: db data' db')
  case Nil
  then show ?case by simp
next
  case (Cons d ds)
  obtain d' db1 where w: "with_id d db = (d', db1)" by (cases "with_id d db")
  obtain ds' db2 where a: "assign_ids ds db1 = (ds', db2)" by (cases "assign_ids ds db1")
  have f: "available db1 = available db \<and> unique_indexes db1 = unique_indexes db
     \<and> next_oid db \<le> next_oid db1 \<and> clock db1 = clock db \<and> collections db1 = collections db"
    using w by (auto simp add: with_id_def split: option.splits)
  have "db' = db2" "data' = d' # ds'" using Cons.prems w a by simp_all
  then show ?case using Cons.IH [OF a] f by simp
qed

lemma insert_many_frame:
  "insert_many cname data db = (r, data', db') \<Longrightarrow> cname \<noteq> ''audit_logs'' \<Longrightarrow>
     available db' = available db \<and> unique_indexes db' = unique_indexes db
     \<and> next_oid db \<le> next_oid db' \<and> clock db' = clock db
     \<and> collections db' ''audit_logs'' = collections db ''audit_logs''"
proof -
  assume m: "insert_many cname data db = (r, data', db')" and n: "cname \<noteq> ''audit_logs''"
  obtain d1 db1 where a: "assign_ids data db = (d1, db1)" by (cases "assign_ids data db")
  note f = assign_ids_frame [OF a]
  show ?thesis using m n a f
    by (auto simp add: insert_many_def Let_def split: prod.splits if_splits)
qed

lemma log_data_operation_appends:
  assumes "available db" and "unique_indexes db ''audit_logs'' = []"
    and "\<forall>d\<in>set (collections db ''audit_logs''). \<forall>n. map_of d ''_id'' = Some (PObjectId n) \<longrightarrow>
           n < next_oid db"
  shows "collections (log_data_operation env cname operation total_records ins upd db) ''audit_logs'' =
     collections db ''audit_logs'' @
       [[(''_id'', PObjectId (next_oid db)),
         (''timestamp'', PDatetime (utcnow env (clock db))),
         (''operation'', PStr (py operation)),
         (''collection'', PStr (py cname)),
         (''total_records'', PInt (int total_records)),
         (''inserted_records'', PInt (int ins)),
         (''updated_records'', PInt (int upd)),
         (''source'', PStr (py ''mongodb_client''))]]"
proof -
  have "\<not> list_ex (\<lambda>d'. map_of d' ''_id'' = Some (PObjectId (next_oid db)))
           (collections db ''audit_logs'')"
    using assms(3) by (auto simp add: list_ex_iff)
  then show ?thesis
    using assms(1,2)
    by (simp add: log_data_operation_def insert_one_def with_id_def dup_id_def
          violates_unique_def bson_doc_def Let_def)
qed

text \<open>
  Claim C6. A call to \<open>store_data\<close> with records, a valid collection name other than
  \<open>audit_logs\<close> and a server that answers, in either mode, appends exactly one entry to
  \<open>audit_logs\<close>, provided the insert of the entry is not refused (no unique index on
  \<open>audit_logs\<close>, and the identifiers already there were generated before): the entry
  has the time of the call, the operation \<open>store\<close>, the collection name, the number of
  records and the counts returned for inserted and updated. A call with no records returns
  zero counts after a warning and leaves every collection, \<open>audit_logs\<close> included, as it
  was.
\<close>

theorem store_data_audit_entry:
  assumes "data \<noteq> []" and "valid_collection_name cname" and "available db"
    and "cname \<noteq> ''audit_logs''" and "unique_indexes db ''audit_logs'' = []"
    and "\<forall>d\<in>set (collections db ''audit_logs''). \<forall>n. map_of d ''_id'' = Some (PObjectId n) \<longrightarrow>
           n < next_oid db"
  shows "(\<exists>c n. fst (store_data env cname data upsert_key db) = Inr c
            \<and> collections (snd (store_data env cname data upsert_key db)) ''audit_logs'' =
                collections db ''audit_logs'' @
                  [[(''_id'', PObjectId n),
                    (''timestamp'', PDatetime (utcnow env (clock db))),
                    (''operation'', PStr (py ''store'')),
                    (''collection'', PStr (py cname)),
                    (''total_records'', PInt (int (length data))),
                    (''inserted_records'', PInt (int (inserted c))),
                    (''updated_records'', PInt (int (updated c))),
                    (''source'', PStr (py ''mongodb_client''))]])
     \<and> fst (store_data env cname0 [] upsert_key db0) = Inr \<lparr>inserted = 0, updated = 0, failed = 0\<rparr>
     \<and> collections (snd (store_data env cname0 [] upsert_key db0)) = collections db0"
proof -
  let ?c0 = "\<lparr>inserted = 0, updated = 0, failed = 0\<rparr>"
  define loop where "loop =
     (if upsert_key \<noteq> None \<and> upsert_key \<noteq> Some []
      then upsert_loop cname (the upsert_key) data ?c0 db
      else
        (case insert_many cname data db of
           (Inr n, data', db') \<Rightarrow> (?c0\<lparr>inserted := n\<rparr>, db')
         | (Inl e, data', db') \<Rightarrow>
             insert_loop cname data' ?c0
               (mlog ERROR ''Bulk insert failed'' [ArgErr e] db')))"
  obtain c db1 where l: "loop = (c, db1)" by (cases loop)
  have sd: "store_data env cname data upsert_key db =
      (Inr c, mlog INFO ''Stored data'' [ArgStr (py cname)]
                (log_data_operation env cname ''store'' (length data) (inserted c) (updated c) db1))"
    using assms(1,2) l unfolding store_data_def loop_def Let_def by simp
  have f: "available db1 = available db \<and> unique_indexes db1 = unique_indexes db
     \<and> next_oid db \<le> next_oid db1 \<and> clock db1 = clock db
     \<and> collections db1 ''audit_logs'' = collections db ''audit_logs''"
  proof (cases "upsert_key \<noteq> None \<and> upsert_key \<noteq> Some []")
    case True
    have "upsert_loop cname (the upsert_key) data ?c0 db = (c, db1)"
      using l unfolding loop_def by (simp only: if_P [OF True])
    from upsert_loop_frame [OF this assms(4)] show ?thesis .
  next
    case False
    obtain r data' db' where m: "insert_many cname data db = (r, data', db')"
      by (cases "insert_many cname data db")
    note g = insert_many_frame [OF m assms(4)]
    have l2: "(case insert_many cname data db of
           (Inr n, data', db') \<Rightarrow> (?c0\<lparr>inserted := n\<rparr>, db')
         | (Inl e, data', db') \<Rightarrow>
             insert_loop cname data' ?c0
               (mlog ERROR ''Bulk insert failed'' [ArgErr e] db')) = (c, db1)"
      using l unfolding loop_def by (simp only: if_not_P [OF False])
    show ?thesis
    proof (cases r)
      case (Inr n)
      then have "db1 = db'" using l2 m by simp
      then show ?thesis using g by simp
    next
      case (Inl e)
      then have "insert_loop cname data' ?c0
               (mlog ERROR ''Bulk insert failed'' [ArgErr e] db') = (c, db1)"
        using l2 m by simp
      from insert_loop_frame [OF this assms(4)] show ?thesis using g by simp
    qed
  qed
  have fresh: "\<forall>d\<in>set (collections db1 ''audit_logs''). \<forall>n.
      map_of d ''_id'' = Some (PObjectId n) \<longrightarrow> n < next_oid db1"
    using assms(6) f by fastforce
  have a1: "available db1" and u1: "unique_indexes db1 ''audit_logs'' = []"
    using assms(3,5) f by simp_all
  have "collections (snd (store_data env cname data upsert_key db)) ''audit_logs'' =
      collections db ''audit_logs'' @
        [[(''_id'', PObjectId (next_oid db1)),
          (''timestamp'', PDatetime (utcnow env (clock db))),
          (''operation'', PStr (py ''store'')),
          (''collection'', PStr (py cname)),
          (''total_records'', PInt (int (length data))),
          (''inserted_records'', PInt (int (inserted c))),
          (''updated_records'', PInt (int (updated c))),
          (''source'', PStr (py ''mongodb_client''))]]"
    using log_data_operation_appends [OF a1 u1 fresh, of env cname "''store''" "length data"
            "inserted c" "updated c"] f
    by (simp add: sd)
  then have p1: "\<exists>c n. fst (store_data env cname data upsert_key db) = Inr c
            \<and> collections (snd (store_data env cname data upsert_key db)) ''audit_logs'' =
                collections db ''audit_logs'' @
                  [[(''_id'', PObjectId n),
                    (''timestamp'', PDatetime (utcnow env (clock db))),
                    (''operation'', PStr (py ''store'')),
                    (''collection'', PStr (py cname)),
                    (''total_records'', PInt (int (length data))),
                    (''inserted_records'', PInt (int (inserted c))),
                    (''updated_records'', PInt (int (updated c))),
                    (''source'', PStr (py ''mongodb_client''))]]"
    using sd by auto
  have p2: "fst (store_data env cname0 [] upsert_key db0) = Inr ?c0
     \<and> collections (snd (store_data env cname0 [] upsert_key db0)) = collections db0"
    by (simp add: store_data_def)
  show ?thesis using p1 p2 by (intro conjI) blast+
qed

lemma example_audit_log:
  "collections (snd (store_data example_env ''canvas_students''
       [example_doc_a, example_doc_b, example_doc_a] (Some ''anonymous_id'') example_db))
     ''audit_logs'' =
     [[(''_id'', PObjectId 2),
       (''timestamp'', PDatetime (utcnow example_env 0)),
       (''operation'', PStr (py ''store'')),
       (''collection'', PStr (py ''canvas_students'')),
       (''total_records'', PInt 3),
       (''inserted_records'', PInt 2),
       (''updated_records'', PInt 0),
       (''source'', PStr (py ''mongodb_client''))]]"
  by (simp add: example_store_defs)

theorem store_data_audit_entry_witness:
  "valid_collection_name ''canvas_students'' \<and> available example_db
   \<and> unique_indexes example_db ''audit_logs'' = []
   \<and> collections example_db ''audit_logs'' = []
   \<and> collections (snd (store_data example_env ''canvas_students''
         [example_doc_a, example_doc_b, example_doc_a] (Some ''anonymous_id'') example_db))
       ''audit_logs'' =
       [[(''_id'', PObjectId 2),
         (''timestamp'', PDatetime (utcnow example_env 0)),
         (''operation'', PStr (py ''store'')),
         (''collection'', PStr (py ''canvas_students'')),
         (''total_records'', PInt 3),
         (''inserted_records'', PInt 2),
         (''updated_records'', PInt 0),
         (''source'', PStr (py ''mongodb_client''))]]"
proof -
  have h: "[example_doc_a, example_doc_b, example_doc_a] \<noteq> []"
    "valid_collection_name ''canvas_students''" "available example_db"
    "''canvas_students'' \<noteq> ''audit_logs''" "unique_indexes example_db ''audit_logs'' = []"
    "\<forall>d\<in>set (collections example_db ''audit_logs''). \<forall>n.
        map_of d ''_id'' = Some (PObjectId n) \<longrightarrow> n < next_oid example_db"
    using example_valid_name by (simp_all add: example_db_def)
  have e: "collections example_db ''audit_logs'' = []" by (simp add: example_db_def)
  note t = store_data_audit_entry [OF h, of example_env "Some ''anonymous_id''"]
  have "\<exists>(c::store_counts) n. collections (snd (store_data example_env ''canvas_students''
         [example_doc_a, example_doc_b, example_doc_a] (Some ''anonymous_id'') example_db))
       ''audit_logs'' =
       collections example_db ''audit_logs'' @
         [[(''_id'', PObjectId n),
           (''timestamp'', PDatetime (utcnow example_env (clock example_db))),
           (''operation'', PStr (py ''store'')),
           (''collection'', PStr (py ''canvas_students'')),
           (''total_records'', PInt (int (length [example_doc_a, example_doc_b, example_doc_a]))),
           (''inserted_records'', PInt (int (inserted c))),
           (''updated_records'', PInt (int (updated c))),
           (''source'', PStr (py ''mongodb_client''))]]"
    using t [THEN conjunct1] by blast
  then show ?thesis
    using h(2,3,5) e example_audit_log by (intro conjI) assumption+
qed

text \<open>A call with no records: counts of zero, and nothing is added to \<open>audit_logs\<close>.\<close>

theorem empty_store_counterexample:
  "fst (store_data example_env ''canvas_students'' [] None example_db) =
     Inr \<lparr>inserted = 0, updated = 0, failed = 0\<rparr>
   \<and> collections (snd (store_data example_env ''canvas_students'' [] None example_db))
        ''audit_logs'' = []"
  by (simp add: store_data_def mlog_def example_db_def)

section \<open>\<open>cleanup_old_data\<close>\<close>

lemma log_data_operation_frame:
  "available (log_data_operation env cname operation total_records ins upd db) = available db
   \<and> unique_indexes (log_data_operation env cname operation total_records ins upd db) =
       unique_indexes db
   \<and> (\<forall>c. c \<noteq> ''audit_logs'' \<longrightarrow>
          collections (log_data_operation env cname operation total_records ins upd db) c =
          collections db c)"
  by (simp add: log_data_operation_def insert_one_def with_id_def Let_def mlog_def)

lemma log_data_operation_next_oid:
  assumes "available db" and "unique_indexes db ''audit_logs'' = []"
    and "\<forall>d\<in>set (collections db ''audit_logs''). \<forall>n. map_of d ''_id'' = Some (PObjectId n) \<longrightarrow>
           n < next_oid db"
  shows "next_oid (log_data_operation env cname operation total_records ins upd db) =
           Suc (next_oid db)"
proof -
  have "\<not> list_ex (\<lambda>d'. map_of d' ''_id'' = Some (PObjectId (next_oid db)))
           (collections db ''audit_logs'')"
    using assms(3) by (auto simp add: list_ex_iff)
  then show ?thesis
    using assms(1,2)
    by (simp add: log_data_operation_def insert_one_def with_id_def dup_id_def
          violates_unique_def bson_doc_def Let_def)
qed

lemma log_data_operation_fresh:
  assumes "available db" and "unique_indexes db ''audit_logs'' = []"
    and "\<forall>d\<in>set (collections db ''audit_logs''). \<forall>n. map_of d ''_id'' = Some (PObjectId n) \<longrightarrow>
           n < next_oid db"
  shows "\<forall>d\<in>set (collections (log_data_operation env cname operation total_records ins upd db)
                     ''audit_logs'').
           \<forall>n. map_of d ''_id'' = Some (PObjectId n) \<longrightarrow>
             n < next_oid (log_data_operation env cname operation total_records ins upd db)"
  using assms(3)
  by (auto simp add: log_data_operation_appends [OF assms] log_data_operation_next_oid [OF assms]
           less_Suc_eq)

lemma delete_many_available:
  "available db \<Longrightarrow>
     delete_many cname cutoff db =
       (Inr (length (filter (older_than cutoff) (collections db cname))),
        db\<lparr>collections :=
             (collections db)(cname :=
                filter (\<lambda>d. \<not> older_than cutoff d) (collections db cname))\<rparr>)"
  by (simp add: delete_many_def)

lemma cleanup_loop_result:
  assumes "available db" and "''audit_logs'' \<notin> set cs" and "distinct cs"
    and "cleanup_loop env cutoff cs tot db = (tot', db')"
  shows "tot' =
       tot + sum_list (map (\<lambda>c. length (filter (older_than cutoff) (collections db c))) cs)
   \<and> (\<forall>c\<in>set cs. collections db' c = filter (\<lambda>d. \<not> older_than cutoff d) (collections db c))
   \<and> (\<forall>c. c \<notin> set cs \<and> c \<noteq> ''audit_logs'' \<longrightarrow> collections db' c = collections db c)
   \<and> available db' \<and> unique_indexes db' = unique_indexes db
   \<and> (unique_indexes db ''audit_logs'' = []
        \<and> (\<forall>d\<in>set (collections db ''audit_logs''). \<forall>n.
              map_of d ''_id'' = Some (PObjectId n) \<longrightarrow> n < next_oid db) \<longrightarrow>
        (\<forall>d\<in>set (collections db' ''audit_logs''). \<forall>n.
              map_of d ''_id'' = Some (PObjectId n) \<longrightarrow> n < next_oid db')
        \<and> (\<exists>entries. collections db' ''audit_logs'' = collections db ''audit_logs'' @ entries
              \<and> map (\<lambda>d. (map_of d ''operation'', map_of d ''collection'',
                           map_of d ''total_records'')) entries =
                  map (\<lambda>c. (Some (PStr (py ''cleanup'')), Some (PStr (py c)),
                            Some (PInt (int (length (filter (older_than cutoff)
                                                       (collections db c)))))))
                    (filter (\<lambda>c. 0 < length (filter (older_than cutoff) (collections db c)))
                       cs)))"
  using assms
proof (induction cs arbitrary: tot db)
  case Nil
  then show ?case by simp
next
  case (Cons c0 rest)
  let ?cnt = "\<lambda>d c. length (filter (older_than cutoff) (collections d c))"
  let ?proj = "\<lambda>d. (map_of d ''operation'', map_of d ''collection'', map_of d ''total_records'')"
  let ?row = "\<lambda>d c. (Some (PStr (py ''cleanup'')), Some (PStr (py c)),
                      Some (PInt (int (?cnt d c))))"
  let ?fresh = "\<lambda>d. \<forall>x\<in>set (collections d ''audit_logs''). \<forall>n.
                   map_of x ''_id'' = Some (PObjectId n) \<longrightarrow> n < next_oid d"
  define n where "n = ?cnt db c0"
  define db1 where "db1 = db\<lparr>collections :=
       (collections db)(c0 := filter (\<lambda>d. \<not> older_than cutoff d) (collections db c0))\<rparr>"
  define dbm where "dbm = mlog INFO ''Deleted old records'' [ArgNat n, ArgStr (py c0)] db1"
  define db2 where "db2 =
     (if n > 0 then log_data_operation env c0 ''cleanup'' n 0 0 dbm else db1)"
  have loop: "cleanup_loop env cutoff rest (tot + n) db2 = (tot', db')"
    using Cons.prems(4) delete_many_available [OF Cons.prems(1), of c0 cutoff]
    by (auto simp add: db1_def db2_def dbm_def n_def split: if_splits)
  have c0: "c0 \<noteq> ''audit_logs''" "c0 \<notin> set rest" "distinct rest" "''audit_logs'' \<notin> set rest"
    using Cons.prems(2,3) by auto
  have b1: "available db1" "unique_indexes db1 = unique_indexes db" "next_oid db1 = next_oid db"
    "collections db1 ''audit_logs'' = collections db ''audit_logs''"
    "collections db1 c0 = filter (\<lambda>d. \<not> older_than cutoff d) (collections db c0)"
    using Cons.prems(1) c0(1) by (simp_all add: db1_def)
  have b1o: "collections db1 c = collections db c" if "c \<noteq> c0" for c
    using that by (simp add: db1_def)
  have bm: "available dbm" "unique_indexes dbm = unique_indexes db" "next_oid dbm = next_oid db"
    "collections dbm = collections db1"
    using b1 by (simp_all add: dbm_def)
  have b2: "available db2" "unique_indexes db2 = unique_indexes db"
    using log_data_operation_frame [of env c0 "''cleanup''" n 0 0 dbm] b1 bm
    by (simp_all add: db2_def)
  have b2o: "collections db2 c = collections db1 c" if "c \<noteq> ''audit_logs''" for c
    using log_data_operation_frame [of env c0 "''cleanup''" n 0 0 dbm] bm that
    by (simp add: db2_def)
  have same: "collections db2 c = collections db c" if "c \<in> set rest" for c
  proof -
    have n1: "c \<noteq> c0" using that c0(2) by blast
    have n2: "c \<noteq> ''audit_logs''" using that c0(4) by blast
    show ?thesis using b2o [OF n2] b1o [OF n1] by simp
  qed
  note ih = Cons.IH [OF b2(1) c0(4) c0(3) loop]
  note ih1 = ih [THEN conjunct1]
  note ih2 = ih [THEN conjunct2, THEN conjunct1]
  note ih3 = ih [THEN conjunct2, THEN conjunct2, THEN conjunct1]
  note ih4 = ih [THEN conjunct2, THEN conjunct2, THEN conjunct2, THEN conjunct1]
  note ih5 = ih [THEN conjunct2, THEN conjunct2, THEN conjunct2, THEN conjunct2, THEN conjunct1]
  note ih6 = ih [THEN conjunct2, THEN conjunct2, THEN conjunct2, THEN conjunct2, THEN conjunct2]
  have cnt: "map (?cnt db2) rest = map (?cnt db) rest"
    by (rule map_cong) (simp_all add: same)
  have p1: "tot' = tot + sum_list (map (?cnt db) (c0 # rest))"
    using ih1 cnt by (simp add: n_def)
  have p2: "\<forall>c\<in>set (c0 # rest). collections db' c =
              filter (\<lambda>d. \<not> older_than cutoff d) (collections db c)"
  proof
    fix c assume c: "c \<in> set (c0 # rest)"
    show "collections db' c = filter (\<lambda>d. \<not> older_than cutoff d) (collections db c)"
    proof (cases "c = c0")
      case True
      have "collections db' c0 = collections db2 c0" using ih3 c0(1,2) by simp
      then show ?thesis using True b2o [OF c0(1)] b1(5) by simp
    next
      case False
      then have r: "c \<in> set rest" using c by simp
      then have "collections db' c = filter (\<lambda>d. \<not> older_than cutoff d) (collections db2 c)"
        using ih2 by simp
      then show ?thesis using same [OF r] by simp
    qed
  qed
  have p3: "\<forall>c. c \<notin> set (c0 # rest) \<and> c \<noteq> ''audit_logs'' \<longrightarrow>
              collections db' c = collections db c"
  proof (intro allI impI)
    fix c assume c: "c \<notin> set (c0 # rest) \<and> c \<noteq> ''audit_logs''"
    then have "collections db' c = collections db2 c" using ih3 by simp
    then show "collections db' c = collections db c" using c b2o [of c] b1o [of c] by simp
  qed
  have p4: "available db'" "unique_indexes db' = unique_indexes db"
    using ih4 ih5 b2(2) by simp_all
  have p5: "(\<forall>d\<in>set (collections db' ''audit_logs''). \<forall>n.
              map_of d ''_id'' = Some (PObjectId n) \<longrightarrow> n < next_oid db')
        \<and> (\<exists>entries. collections db' ''audit_logs'' = collections db ''audit_logs'' @ entries
              \<and> map ?proj entries =
                  map (?row db) (filter (\<lambda>c. 0 < ?cnt db c) (c0 # rest)))"
    if u: "unique_indexes db ''audit_logs'' = []" and f: "?fresh db"
  proof -
    have um: "unique_indexes dbm ''audit_logs'' = []" using u bm by simp
    have fm: "?fresh dbm" using f bm b1 by simp
    obtain e0 where e0: "collections db2 ''audit_logs'' = collections db ''audit_logs'' @ e0"
      and pe0: "map ?proj e0 = (if 0 < n then [?row db c0] else [])"
      and f2: "?fresh db2"
    proof (cases "0 < n")
      case True
      have a: "collections db2 ''audit_logs'' = collections db ''audit_logs'' @
         [[(''_id'', PObjectId (next_oid dbm)),
           (''timestamp'', PDatetime (utcnow env (clock dbm))),
           (''operation'', PStr (py ''cleanup'')),
           (''collection'', PStr (py c0)),
           (''total_records'', PInt (int n)),
           (''inserted_records'', PInt (int 0)),
           (''updated_records'', PInt (int 0)),
           (''source'', PStr (py ''mongodb_client''))]]"
        using log_data_operation_appends [OF bm(1) um fm, of env c0 "''cleanup''" n 0 0]
          True bm b1 by (simp add: db2_def)
      have b: "?fresh db2"
        using log_data_operation_fresh [OF bm(1) um fm, of env c0 "''cleanup''" n 0 0] True
        by (simp add: db2_def)
      show ?thesis
        by (rule that [OF a _ b]) (simp add: True n_def [symmetric])
    next
      case False
      have a: "collections db2 ''audit_logs'' = collections db ''audit_logs'' @ []"
        using False b1 by (simp add: db2_def)
      have b: "?fresh db2" using False f b1 by (simp add: db2_def)
      show ?thesis by (rule that [OF a _ b]) (simp add: False)
    qed
    have u2: "unique_indexes db2 ''audit_logs'' = []" using u b2 by simp
    obtain entries where f': "?fresh db'"
      and e: "collections db' ''audit_logs'' = collections db2 ''audit_logs'' @ entries"
      and pe: "map ?proj entries = map (?row db2) (filter (\<lambda>c. 0 < ?cnt db2 c) rest)"
      using ih6 [rule_format, OF conjI [OF u2 f2]] by (elim conjE exE) blast
    have fl: "filter (\<lambda>c. 0 < ?cnt db2 c) rest = filter (\<lambda>c. 0 < ?cnt db c) rest"
      by (rule filter_cong) (simp_all add: same)
    have mp: "map (?row db2) (filter (\<lambda>c. 0 < ?cnt db c) rest) =
              map (?row db) (filter (\<lambda>c. 0 < ?cnt db c) rest)"
      by (rule map_cong) (simp_all add: same)
    have "collections db' ''audit_logs'' = collections db ''audit_logs'' @ (e0 @ entries)"
      using e e0 by simp
    moreover have "map ?proj (e0 @ entries) =
        map (?row db) (filter (\<lambda>c. 0 < ?cnt db c) (c0 # rest))"
      using pe pe0 fl mp by (simp add: n_def)
    ultimately have "\<exists>entries. collections db' ''audit_logs'' =
          collections db ''audit_logs'' @ entries
        \<and> map ?proj entries = map (?row db) (filter (\<lambda>c. 0 < ?cnt db c) (c0 # rest))"
      by (intro exI [of _ "e0 @ entries"] conjI)
    then show ?thesis using f' by (intro conjI) assumption+
  qed
  have p6: "unique_indexes db ''audit_logs'' = [] \<and> ?fresh db \<longrightarrow>
        (\<forall>d\<in>set (collections db' ''audit_logs''). \<forall>n.
              map_of d ''_id'' = Some (PObjectId n) \<longrightarrow> n < next_oid db')
        \<and> (\<exists>entries. collections db' ''audit_logs'' = collections db ''audit_logs'' @ entries
              \<and> map ?proj entries =
                  map (?row db) (filter (\<lambda>c. 0 < ?cnt db c) (c0 # rest)))"
    by (intro impI, elim conjE, rule p5, assumption+)
  show ?case using p1 p2 p3 p4(1) p4(2) p6 by (intro conjI) assumption+
qed

lemma collections_to_clean_facts:
  "''audit_logs'' \<notin> set collections_to_clean" "distinct collections_to_clean"
  by (simp_all add: collections_to_clean_def)

lemma cleanup_old_data_overflow:
  "999999999 < \<bar>n\<bar> \<or> utcnow env (clock db) - n * microseconds_per_day < 0
     \<or> datetime_max < utcnow env (clock db) - n * microseconds_per_day \<Longrightarrow>
   fst (cleanup_old_data env (Some n) db) = Inl OverflowError
   \<and> collections (snd (cleanup_old_data env (Some n) db)) = collections db"
  by (auto simp add: cleanup_old_data_def timedelta_days_def datetime_sub_def Let_def mlog_def)

lemma older_than_iff:
  "older_than cutoff d = (\<exists>t. map_of d ''collected_at'' = Some (PStr t) \<and> t < cutoff)"
  by (auto simp add: older_than_def split: option.splits pyval.splits)

text \<open>
  Claim C9. While the server answers and \<open>now - days_to_keep\<close> is a date that
  \<open>datetime\<close> can hold, \<open>cleanup_old_data\<close> deletes, in each of the ten collections it
  names, exactly the documents whose \<open>collected_at\<close> is a string ordered before the ISO
  rendering of \<open>now - days_to_keep\<close> (for a timestamp written by \<open>isoformat\<close>, where
  that rendering keeps the order of time: exactly those strictly older), leaves the other
  collections but \<open>audit_logs\<close> alone, and returns the number of documents deleted
  over all collections. Where the audit insert is not refused, \<open>audit_logs\<close> receives one
  \<open>cleanup\<close> entry, with the collection and its count, for each collection with a
  count above zero, in the order of the list. Leaving \<open>days_to_keep\<close> out means 2555.
  When the subtraction leaves the range of \<open>datetime\<close>, the call raises
  \<open>OverflowError\<close> and deletes nothing.
\<close>

theorem cleanup_old_data_deletes_older:
  assumes "available db"
    and "days = (case days_to_keep of None \<Rightarrow> 2555 | Some n \<Rightarrow> n)"
    and "cutoff_date = utcnow env (clock db) - days * microseconds_per_day"
    and "\<bar>days\<bar> \<le> 999999999" and "0 \<le> cutoff_date" and "cutoff_date \<le> datetime_max"
    and "cutoff = isoformat env cutoff_date"
  shows "fst (cleanup_old_data env days_to_keep db) =
       Inr (sum_list (map (\<lambda>c. length (filter (older_than cutoff) (collections db c)))
              collections_to_clean))
   \<and> (\<forall>c\<in>set collections_to_clean.
         collections (snd (cleanup_old_data env days_to_keep db)) c =
         filter (\<lambda>d. \<not> older_than cutoff d) (collections db c))
   \<and> (\<forall>c. c \<notin> set collections_to_clean \<and> c \<noteq> ''audit_logs'' \<longrightarrow>
         collections (snd (cleanup_old_data env days_to_keep db)) c = collections db c)
   \<and> (\<forall>d. older_than cutoff d =
         (\<exists>t. map_of d ''collected_at'' = Some (PStr t) \<and> t < cutoff))
   \<and> ((\<forall>a b. 0 \<le> a \<and> a \<le> datetime_max \<and> 0 \<le> b \<and> b \<le> datetime_max \<longrightarrow>
            (isoformat env a < isoformat env b) = (a < b)) \<longrightarrow>
        (\<forall>d t. 0 \<le> t \<and> t \<le> datetime_max
               \<and> map_of d ''collected_at'' = Some (PStr (isoformat env t)) \<longrightarrow>
            older_than cutoff d = (t < cutoff_date)))
   \<and> (unique_indexes db ''audit_logs'' = []
        \<and> (\<forall>d\<in>set (collections db ''audit_logs''). \<forall>n.
              map_of d ''_id'' = Some (PObjectId n) \<longrightarrow> n < next_oid db) \<longrightarrow>
        (\<exists>entries. collections (snd (cleanup_old_data env days_to_keep db)) ''audit_logs'' =
                     collections db ''audit_logs'' @ entries
              \<and> map (\<lambda>d. (map_of d ''operation'', map_of d ''collection'',
                           map_of d ''total_records'')) entries =
                  map (\<lambda>c. (Some (PStr (py ''cleanup'')), Some (PStr (py c)),
                            Some (PInt (int (length (filter (older_than cutoff)
                                                       (collections db c)))))))
                    (filter (\<lambda>c. 0 < length (filter (older_than cutoff) (collections db c)))
                       collections_to_clean)))
   \<and> cleanup_old_data env None db = cleanup_old_data env (Some 2555) db
   \<and> (\<forall>n. 999999999 < \<bar>n\<bar> \<or> utcnow env (clock db) - n * microseconds_per_day < 0
            \<or> datetime_max < utcnow env (clock db) - n * microseconds_per_day \<longrightarrow>
          fst (cleanup_old_data env (Some n) db) = Inl OverflowError
          \<and> collections (snd (cleanup_old_data env (Some n) db)) = collections db)"
proof -
  define db0 where "db0 = db\<lparr>clock := Suc (clock db)\<rparr>"
  obtain tot db' where l: "cleanup_loop env cutoff collections_to_clean 0 db0 = (tot, db')"
    by (cases "cleanup_loop env cutoff collections_to_clean 0 db0")
  have r: "cleanup_old_data env days_to_keep db =
      (Inr tot, mlog INFO ''Data cleanup completed'' [ArgNat tot] db')"
    using assms(2-7) l
    by (simp add: cleanup_old_data_def Let_def timedelta_days_def datetime_sub_def db0_def)
  have a0: "available db0" using assms(1) by (simp add: db0_def)
  have c0: "collections db0 = collections db" "unique_indexes db0 = unique_indexes db"
    "next_oid db0 = next_oid db"
    by (simp_all add: db0_def)
  note res = cleanup_loop_result [OF a0 collections_to_clean_facts l]
  note res1 = res [THEN conjunct1]
  note res2 = res [THEN conjunct2, THEN conjunct1]
  note res3 = res [THEN conjunct2, THEN conjunct2, THEN conjunct1]
  note res6 = res [THEN conjunct2, THEN conjunct2, THEN conjunct2, THEN conjunct2, THEN conjunct2]
  have p1: "fst (cleanup_old_data env days_to_keep db) =
       Inr (sum_list (map (\<lambda>c. length (filter (older_than cutoff) (collections db c)))
              collections_to_clean))"
    using res1 by (simp add: r c0)
  have p2: "\<forall>c\<in>set collections_to_clean.
         collections (snd (cleanup_old_data env days_to_keep db)) c =
         filter (\<lambda>d. \<not> older_than cutoff d) (collections db c)"
    using res2 by (simp add: r c0)
  have p3: "\<forall>c. c \<notin> set collections_to_clean \<and> c \<noteq> ''audit_logs'' \<longrightarrow>
         collections (snd (cleanup_old_data env days_to_keep db)) c = collections db c"
    using res3 by (simp add: r c0)
  have p4: "\<forall>d. older_than cutoff d =
         (\<exists>t. map_of d ''collected_at'' = Some (PStr t) \<and> t < cutoff)"
    using older_than_iff by blast
  have p5: "(\<forall>a b. 0 \<le> a \<and> a \<le> datetime_max \<and> 0 \<le> b \<and> b \<le> datetime_max \<longrightarrow>
            (isoformat env a < isoformat env b) = (a < b)) \<longrightarrow>
        (\<forall>d t. 0 \<le> t \<and> t \<le> datetime_max
               \<and> map_of d ''collected_at'' = Some (PStr (isoformat env t)) \<longrightarrow>
            older_than cutoff d = (t < cutoff_date))"
    using assms(5,6,7) by (simp add: older_than_def)
  have p6: "unique_indexes db ''audit_logs'' = []
        \<and> (\<forall>d\<in>set (collections db ''audit_logs''). \<forall>n.
              map_of d ''_id'' = Some (PObjectId n) \<longrightarrow> n < next_oid db) \<longrightarrow>
        (\<exists>entries. collections (snd (cleanup_old_data env days_to_keep db)) ''audit_logs'' =
                     collections db ''audit_logs'' @ entries
              \<and> map (\<lambda>d. (map_of d ''operation'', map_of d ''collection'',
                           map_of d ''total_records'')) entries =
                  map (\<lambda>c. (Some (PStr (py ''cleanup'')), Some (PStr (py c)),
                            Some (PInt (int (length (filter (older_than cutoff)
                                                       (collections db c)))))))
                    (filter (\<lambda>c. 0 < length (filter (older_than cutoff) (collections db c)))
                       collections_to_clean))"
    using res6 by (simp add: r c0)
  have p7: "cleanup_old_data env None db = cleanup_old_data env (Some 2555) db"
    by (simp add: cleanup_old_data_def)
  have p8: "\<forall>n. 999999999 < \<bar>n\<bar> \<or> utcnow env (clock db) - n * microseconds_per_day < 0
            \<or> datetime_max < utcnow env (clock db) - n * microseconds_per_day \<longrightarrow>
          fst (cleanup_old_data env (Some n) db) = Inl OverflowError
          \<and> collections (snd (cleanup_old_data env (Some n) db)) = collections db"
    using cleanup_old_data_overflow by blast
  show ?thesis using p1 p2 p3 p4 p5 p6 p7 p8 by (intro conjI) assumption+
qed

lemma replicate_less: "(replicate m (x::nat) < replicate n x) = (m < n)"
proof (induction m arbitrary: n)
  case 0
  show ?case by (cases n) simp_all
next
  case (Suc m)
  show ?case by (cases n) (simp_all add: Suc)
qed

lemma example_isoformat_order:
  "\<forall>a b. 0 \<le> a \<and> a \<le> datetime_max \<and> 0 \<le> b \<and> b \<le> datetime_max \<longrightarrow>
      (isoformat example_clock_env a < isoformat example_clock_env b) = (a < b)"
  by (auto simp add: example_clock_env_def replicate_less)

lemma example_cutoff: "isoformat example_clock_env 5 = [48, 48, 48, 48, 48]"
  by (simp add: example_clock_env_def eval_nat_numeral)

lemma example_cleanup_overflow:
  "fst (cleanup_old_data example_env (Some 800000) example_db) = Inl OverflowError"
  by (simp add: cleanup_old_data_def timedelta_days_def datetime_sub_def Let_def
        example_env_def example_db_def microseconds_per_day_def)

lemma example_older:
  "older_than [48, 48, 48, 48, 48] [(''collected_at'', PStr [48])]"
  "\<not> older_than [48, 48, 48, 48, 48] [(''collected_at'', PStr [48, 48, 48, 48, 48, 48, 48])]"
  by (simp_all add: older_than_def)

theorem cleanup_old_data_deletes_older_witness:
  "available example_db_aged
   \<and> utcnow example_clock_env (clock example_db_aged) - 0 * microseconds_per_day = 5
   \<and> (5::int) \<le> datetime_max
   \<and> isoformat example_clock_env 5 = [48, 48, 48, 48, 48]
   \<and> unique_indexes example_db_aged ''audit_logs'' = []
   \<and> collections example_db_aged ''audit_logs'' = []
   \<and> fst (cleanup_old_data example_clock_env (Some 0) example_db_aged) = Inr 1
   \<and> collections (snd (cleanup_old_data example_clock_env (Some 0) example_db_aged))
        ''canvas_students'' = [[(''collected_at'', PStr [48, 48, 48, 48, 48, 48, 48])]]
   \<and> older_than [48, 48, 48, 48, 48]
        [(''collected_at'', PStr (isoformat example_clock_env 1))] = ((1::int) < 5)
   \<and> fst (cleanup_old_data example_clock_env (Some 800000) example_db_aged) =
        Inl OverflowError"
proof -
  have h: "available example_db_aged"
    "(0::int) = (case Some 0 of None \<Rightarrow> 2555 | Some n \<Rightarrow> n)"
    "(5::int) = utcnow example_clock_env (clock example_db_aged) - 0 * microseconds_per_day"
    "\<bar>0::int\<bar> \<le> 999999999" "(0::int) \<le> 5" "(5::int) \<le> datetime_max"
    "[48, 48, 48, 48, 48] = isoformat example_clock_env 5"
    using example_cutoff
    by (simp_all add: example_db_aged_def example_db_def example_clock_env_def
          datetime_max_def microseconds_per_day_def)
  note t = cleanup_old_data_deletes_older [OF h]
  note t1 = t [THEN conjunct1]
  note t2 = t [THEN conjunct2, THEN conjunct1]
  note t5 = t [THEN conjunct2, THEN conjunct2, THEN conjunct2, THEN conjunct2, THEN conjunct1]
  note t8 = t [THEN conjunct2, THEN conjunct2, THEN conjunct2, THEN conjunct2, THEN conjunct2,
               THEN conjunct2, THEN conjunct2]
  have r1: "fst (cleanup_old_data example_clock_env (Some 0) example_db_aged) = Inr 1"
    using t1
    by (simp add: collections_to_clean_def example_db_aged_def example_db_def example_older)
  have r2: "collections (snd (cleanup_old_data example_clock_env (Some 0) example_db_aged))
        ''canvas_students'' = [[(''collected_at'', PStr [48, 48, 48, 48, 48, 48, 48])]]"
    using t2
    by (simp add: collections_to_clean_def example_db_aged_def example_db_def example_older)
  have r5: "older_than [48, 48, 48, 48, 48]
        [(''collected_at'', PStr (isoformat example_clock_env 1))] = ((1::int) < 5)"
    using t5 [rule_format, OF example_isoformat_order [rule_format],
              of 1 "[(''collected_at'', PStr (isoformat example_clock_env 1))]"]
    by (simp add: datetime_max_def microseconds_per_day_def)
  have r8: "fst (cleanup_old_data example_clock_env (Some 800000) example_db_aged) =
        Inl OverflowError"
    using t8 [rule_format, of 800000]
    by (simp add: example_db_aged_def example_db_def example_clock_env_def
          microseconds_per_day_def)
  have e: "unique_indexes example_db_aged ''audit_logs'' = []"
    "collections example_db_aged ''audit_logs'' = []"
    by (simp_all add: example_db_aged_def example_db_def)
  show ?thesis
    using h(1) h(3) [symmetric] h(6) example_cutoff e r1 r2 r5 r8
    by (intro conjI) assumption+
qed

text \<open>
  A retention of 800000 days reaches back before the first date \<open>datetime\<close> can hold:
  the call raises and returns no count.
\<close>

theorem cleanup_overflow_counterexample:
  "fst (cleanup_old_data example_env (Some 800000) example_db) = Inl OverflowError"
  by (rule example_cleanup_overflow)

end
